theory Spec2Isabelle
  imports Main
begin

text \<open>
  A model of \<^verbatim>\<open>main.py\<close>, the HTTP handler that downloads the comments of a
  YouTube channel as CSV. The model covers \<^verbatim>\<open>list_comments\<close>, which fetches one
  page of comment threads and appends its records to a scratch file, \<^verbatim>\<open>execute_job\<close>,
  which calls it in a loop until no page is left or the count of records exceeds the
  limit, and \<^verbatim>\<open>get_tokens\<close>, which exchanges an authorization code for tokens.
  The API, the form and the environment are inputs; what a job does to the outside
  is recorded in a trace. A Python exception is a value of type \<open>error\<close>, and a job
  that never returns has the value \<open>None\<close>.
\<close>

section \<open>Python values, exceptions and library functions\<close>

text \<open>
  The exceptions that the modelled functions of \<^verbatim>\<open>main.py\<close> can raise.
  \<open>APIException\<close> is the class of the source (status code and response text);
  the others are Python's own: \<open>KeyError\<close> (a missing dictionary or form key),
  \<open>TypeError\<close>, \<open>ValueError\<close>, \<open>AttributeError\<close>, \<open>JSONDecodeError\<close> raised by
  \<^verbatim>\<open>json.loads\<close>, and \<open>RequestException\<close> raised by \<^verbatim>\<open>requests\<close> when no HTTP
  response arrives.
\<close>

datatype error =
    APIException int string
  | KeyError string
  | TypeError
  | ValueError
  | AttributeError
  | JSONDecodeError
  | RequestException

text \<open>
  A value as \<^verbatim>\<open>json.loads\<close> returns it. \<open>JNull\<close> is Python's \<^verbatim>\<open>None\<close>; a float is
  kept as its literal, since the program never computes with one. A dictionary is
  an association list in insertion order, with each key once.
\<close>

datatype json =
    JNull
  | JBool bool
  | JInt int
  | JFloat string
  | JStr string
  | JArr "json list"
  | JObj "(string \<times> json) list"

text \<open>
  Two functions of Python are taken as parameters: \<^verbatim>\<open>str()\<close> of a value that is
  not a string (what \<^verbatim>\<open>"{}".format\<close> inserts for it) and \<^verbatim>\<open>int()\<close> of a string
  (\<open>None\<close> where it raises \<^verbatim>\<open>ValueError\<close>).
\<close>

record python =
  py_str :: "json \<Rightarrow> string"
  py_int :: "string \<Rightarrow> int option"

definition CR :: char where "CR = CHR 0x0D"
definition LF :: char where "LF = CHR 0x0A"
definition DQUOTE :: char where "DQUOTE = CHR 0x22"
definition BACKSLASH :: char where "BACKSLASH = CHR 0x5C"

text \<open>\<^verbatim>\<open>v[key]\<close> for a string key: only a dictionary can be subscripted by a string.\<close>

fun subscript :: "json \<Rightarrow> string \<Rightarrow> error + json" where
  "subscript (JObj kvs) key =
     (case map_of kvs key of None \<Rightarrow> Inl (KeyError key) | Some v \<Rightarrow> Inr v)"
| "subscript _ key = Inl TypeError"

text \<open>\<^verbatim>\<open>key in s\<close> for two strings: \<open>key\<close> occurs in \<open>s\<close> as a substring.\<close>

fun substring :: "string \<Rightarrow> string \<Rightarrow> bool" where
  "substring key [] = (key = [])"
| "substring key (c # s) = (take (length key) (c # s) = key \<or> substring key s)"

text \<open>\<^verbatim>\<open>key in v\<close> for a string key.\<close>

fun py_in :: "string \<Rightarrow> json \<Rightarrow> error + bool" where
  "py_in key (JObj kvs) = Inr (key \<in> set (map fst kvs))"
| "py_in key (JArr xs) = Inr (JStr key \<in> set xs)"
| "py_in key (JStr s) = Inr (substring key s)"
| "py_in key _ = Inl TypeError"

text \<open>
  The values that \<^verbatim>\<open>for item in v\<close> runs through: the elements of a list, the
  keys of a dictionary, the characters of a string.
\<close>

fun iterate :: "json \<Rightarrow> error + json list" where
  "iterate (JArr xs) = Inr xs"
| "iterate (JObj kvs) = Inr (map (\<lambda>kv. JStr (fst kv)) kvs)"
| "iterate (JStr s) = Inr (map (\<lambda>c. JStr [c]) s)"
| "iterate _ = Inl TypeError"

text \<open>\<^verbatim>\<open>s.replace(old, new)\<close> where \<open>old\<close> is a single character.\<close>

definition replace :: "char \<Rightarrow> string \<Rightarrow> string \<Rightarrow> string" where
  "replace old new s = concat (map (\<lambda>c. if c = old then new else [c]) s)"

text \<open>What \<^verbatim>\<open>"{}".format(v)\<close> inserts: a string itself, \<^verbatim>\<open>str(v)\<close> otherwise.\<close>

definition format_field :: "python \<Rightarrow> json \<Rightarrow> string" where
  "format_field py v = (case v of JStr s \<Rightarrow> s | _ \<Rightarrow> py_str py v)"

text \<open>\<^verbatim>\<open>RECORD_FORMAT.format(a, b, c)\<close>, with \<^verbatim>\<open>RECORD_FORMAT = '"{}","{}","{}"\n'\<close>.\<close>

definition RECORD_FORMAT :: "string \<Rightarrow> string \<Rightarrow> string \<Rightarrow> string" where
  "RECORD_FORMAT a b c =
     [DQUOTE] @ a @ [DQUOTE, CHR '','', DQUOTE] @ b @ [DQUOTE, CHR '','', DQUOTE] @ c
       @ [DQUOTE, LF]"

section \<open>HTTP, the scratch file and the observable trace\<close>

record request =
  verb :: string
  url :: string
  params :: "(string \<times> json) list"
  headers :: "(string \<times> string) list"

text \<open>
  A response of \<^verbatim>\<open>requests\<close>: \<open>parsed\<close> is what \<^verbatim>\<open>json.loads(response.text)\<close>
  returns, \<open>None\<close> where it raises.
\<close>

record response =
  status_code :: int
  resp_text :: string
  parsed :: "json option"

text \<open>
  Everything a job does to the outside, in order: one \<open>Request\<close> per API call, and
  the operations on the scratch file.
\<close>

datatype event = Request request | Write string | Flush | Seek nat | Read | Close

fun requests_of :: "event list \<Rightarrow> request list" where
  "requests_of [] = []"
| "requests_of (Request r # es) = r # requests_of es"
| "requests_of (_ # es) = requests_of es"

text \<open>
  The file of \<^verbatim>\<open>tempfile.TemporaryFile(mode='r+', encoding='utf-8')\<close>: its
  content, the position of the next read or write, and whether written text still
  waits in the buffer. The file is in text mode with the default \<^verbatim>\<open>newline=None\<close>:
  on a POSIX system a write stores the text as it is, and a read returns it with
  every CR LF pair and every other CR turned into LF. Strings are lists of
  characters; encoding them for the file and writing them to it are taken to succeed.
\<close>

record tempfile =
  content :: string
  pos :: nat
  dirty :: bool

fun universal_newlines :: "string \<Rightarrow> string" where
  "universal_newlines [] = []"
| "universal_newlines [c] = (if c = CR then [LF] else [c])"
| "universal_newlines (c # d # s) =
     (if c = CR \<and> d = LF then LF # universal_newlines s
      else if c = CR then LF # universal_newlines (d # s)
      else c # universal_newlines (d # s))"

record world =
  trace :: "event list"
  fp :: tempfile

definition new_world :: world where
  "new_world = \<lparr>trace = [], fp = \<lparr>content = [], pos = 0, dirty = False\<rparr>\<rparr>"

definition f_write :: "string \<Rightarrow> world \<Rightarrow> world" where
  "f_write s w =
     (let f = fp w in
      w\<lparr>trace := trace w @ [Write s],
        fp := f\<lparr>content := take (pos f) (content f) @ s @ drop (pos f + length s) (content f),
               pos := pos f + length s,
               dirty := True\<rparr>\<rparr>)"

definition f_flush :: "world \<Rightarrow> world" where
  "f_flush w = w\<lparr>trace := trace w @ [Flush], fp := (fp w)\<lparr>dirty := False\<rparr>\<rparr>"

definition f_seek :: "nat \<Rightarrow> world \<Rightarrow> world" where
  "f_seek n w = w\<lparr>trace := trace w @ [Seek n], fp := (fp w)\<lparr>pos := n, dirty := False\<rparr>\<rparr>"

definition f_read :: "world \<Rightarrow> string \<times> world" where
  "f_read w =
     (let f = fp w in
      (universal_newlines (drop (pos f) (content f)),
       w\<lparr>trace := trace w @ [Read], fp := f\<lparr>pos := length (content f)\<rparr>\<rparr>))"

definition f_close :: "world \<Rightarrow> world" where
  "f_close w = w\<lparr>trace := trace w @ [Close]\<rparr>"

text \<open>
  The API is the sequence of its responses: the \<open>k\<close>-th call of a job gets
  \<open>api k\<close>, \<open>None\<close> where \<^verbatim>\<open>requests\<close> raises instead of returning a response.
\<close>

type_synonym api = "nat \<Rightarrow> response option"

definition requests_get :: "api \<Rightarrow> request \<Rightarrow> world \<Rightarrow> response option \<times> world" where
  "requests_get api r w =
     (api (length (requests_of (trace w))), w\<lparr>trace := trace w @ [Request r]\<rparr>)"

section \<open>list\_comments\<close>

record next_token =
  token :: json
  count :: int

text \<open>Lines 199 to 201 for one item: the record that \<^verbatim>\<open>f.write\<close> receives.\<close>

definition format_item :: "python \<Rightarrow> json \<Rightarrow> error + string" where
  "format_item py item =
     (case subscript item ''snippet'' of Inl e \<Rightarrow> Inl e | Inr s1 \<Rightarrow>
      case subscript s1 ''topLevelComment'' of Inl e \<Rightarrow> Inl e | Inr s2 \<Rightarrow>
      case subscript s2 ''snippet'' of Inl e \<Rightarrow> Inl e | Inr snippet \<Rightarrow>
      case subscript snippet ''textOriginal'' of Inl e \<Rightarrow> Inl e | Inr original \<Rightarrow>
      case original of
        JStr s \<Rightarrow>
          (let text = replace LF [BACKSLASH, CHR ''n''] (replace CR [] s) in
           case subscript snippet ''publishedAt'' of Inl e \<Rightarrow> Inl e | Inr published \<Rightarrow>
           case subscript snippet ''authorDisplayName'' of Inl e \<Rightarrow> Inl e | Inr author \<Rightarrow>
           Inr (RECORD_FORMAT (format_field py published) (format_field py author) text))
      | _ \<Rightarrow> Inl AttributeError)"

text \<open>The \<^verbatim>\<open>for\<close> loop of lines 198 to 202, from the current count \<open>n\<close>.\<close>

fun write_items :: "python \<Rightarrow> json list \<Rightarrow> int \<Rightarrow> world \<Rightarrow> (error + int) \<times> world" where
  "write_items py [] n w = (Inr n, w)"
| "write_items py (item # rest) n w =
     (case format_item py item of
        Inl e \<Rightarrow> (Inl e, w)
      | Inr line \<Rightarrow> write_items py rest (n + 1) (f_write line w))"

text \<open>Line 197: \<^verbatim>\<open>result['nextPageToken'] if 'nextPageToken' in result else None\<close>.\<close>

definition next_page_token_of :: "json \<Rightarrow> error + json" where
  "next_page_token_of result =
     (case py_in ''nextPageToken'' result of
        Inl e \<Rightarrow> Inl e
      | Inr b \<Rightarrow> if b then subscript result ''nextPageToken'' else Inr JNull)"

text \<open>Lines 188 to 192: the request of one page, after the page token \<open>tok\<close>.\<close>

definition commentThreads_request :: "json \<Rightarrow> string \<Rightarrow> string \<Rightarrow> request" where
  "commentThreads_request tok channel_id access_token =
     (let header = [(''authorization'', ''Bearer '' @ access_token)];
          param = [(''part'', JStr ''snippet''),
                   (''allThreadsRelatedToChannelId'', JStr channel_id),
                   (''textFormat'', JStr ''plainText'')];
          param = (if tok \<noteq> JNull then param @ [(''pageToken'', tok)] else param)
      in \<lparr>verb = ''GET'', url = ''https://www.googleapis.com/youtube/v3/commentThreads'',
          params = param, headers = header\<rparr>)"

definition list_comments ::
  "python \<Rightarrow> api \<Rightarrow> json \<Rightarrow> string \<Rightarrow> string \<Rightarrow> world \<Rightarrow> (error + next_token) \<times> world" where
  "list_comments py api tok channel_id access_token w =
     (case requests_get api (commentThreads_request tok channel_id access_token) w of
        (None, w1) \<Rightarrow> (Inl RequestException, w1)
      | (Some response, w1) \<Rightarrow>
          if status_code response = 200 then
            (case parsed response of
               None \<Rightarrow> (Inl JSONDecodeError, w1)
             | Some result \<Rightarrow>
                (case next_page_token_of result of
                   Inl e \<Rightarrow> (Inl e, w1)
                 | Inr next_page_token \<Rightarrow>
                    (case subscript result ''items'' of
                       Inl e \<Rightarrow> (Inl e, w1)
                     | Inr its \<Rightarrow>
                        (case iterate its of
                           Inl e \<Rightarrow> (Inl e, w1)
                         | Inr items \<Rightarrow>
                            (case write_items py items 0 w1 of
                               (Inl e, w2) \<Rightarrow> (Inl e, w2)
                             | (Inr n, w2) \<Rightarrow>
                                 (Inr \<lparr>token = next_page_token, count = n\<rparr>,
                                  f_flush w2))))))
          else (Inl (APIException (status_code response) (resp_text response)), w1))"

section \<open>execute\_job\<close>

text \<open>
  One pass through the body of \<^verbatim>\<open>while True\<close> (lines 164 to 169), from the loop
  variables \<open>token\<close> and \<open>total_count\<close>: \<open>Inl\<close> when the pass leaves the loop, by
  \<^verbatim>\<open>return\<close> or by an exception, \<open>Inr\<close> with the variables of the next pass.
\<close>

type_synonym loop_state = "json \<times> int \<times> world"
type_synonym outcome = "(error + string) \<times> world"

definition loop_body ::
  "python \<Rightarrow> api \<Rightarrow> int \<Rightarrow> string \<Rightarrow> string \<Rightarrow> loop_state \<Rightarrow> outcome + loop_state" where
  "loop_body py api limit channel_id access_token st =
     (case st of (tok, total_count, w) \<Rightarrow>
      case list_comments py api tok channel_id access_token w of
        (Inl e, w1) \<Rightarrow> Inl (Inl e, w1)
      | (Inr next_token, w1) \<Rightarrow>
          (let total_count = total_count + count next_token;
               tok = (if total_count \<le> limit then token next_token else JNull)
           in if tok = JNull
              then (case f_read (f_seek 0 w1) of (s, w2) \<Rightarrow> Inl (Inr s, w2))
              else Inr (tok, total_count, w1)))"

text \<open>The loop itself may run forever: \<open>None\<close> is a job that never returns.\<close>

partial_function (option) fetch_loop ::
  "python \<Rightarrow> api \<Rightarrow> int \<Rightarrow> string \<Rightarrow> string \<Rightarrow> loop_state \<Rightarrow> outcome option" where
  "fetch_loop py api limit channel_id access_token st =
     (case loop_body py api limit channel_id access_token st of
        Inl r \<Rightarrow> Some r
      | Inr st' \<Rightarrow> fetch_loop py api limit channel_id access_token st')"

declare fetch_loop.simps [code]

text \<open>
  \<open>form\<close> is \<^verbatim>\<open>request.form\<close> and \<open>environ\<close> is \<^verbatim>\<open>os.environ\<close>. The \<^verbatim>\<open>with\<close>
  statement closes the scratch file however the loop is left.
\<close>

definition execute_job ::
  "python \<Rightarrow> (string \<rightharpoonup> string) \<Rightarrow> (string \<rightharpoonup> string) \<Rightarrow> api \<Rightarrow> outcome option" where
  "execute_job py environ form api =
     (case form ''access_token'' of
        None \<Rightarrow> Some (Inl (KeyError ''access_token''), new_world)
      | Some access_token \<Rightarrow>
     (case form ''channel_id'' of
        None \<Rightarrow> Some (Inl (KeyError ''channel_id''), new_world)
      | Some channel_id \<Rightarrow>
     (case environ ''LIMIT'' of
        None \<Rightarrow> Some (Inl TypeError, new_world)
      | Some s \<Rightarrow>
     (case py_int py s of
        None \<Rightarrow> Some (Inl ValueError, new_world)
      | Some limit \<Rightarrow>
          map_option (\<lambda>r. (fst r, f_close (snd r)))
            (fetch_loop py api limit channel_id access_token (JNull, 0, new_world))))))"

section \<open>Pages and comments as the statements read them\<close>

text \<open>
  The three fields of a comment item that a record is made of: the text that
  \<^verbatim>\<open>format\<close> inserts for \<^verbatim>\<open>publishedAt\<close> and \<^verbatim>\<open>authorDisplayName\<close>, and the string
  under \<^verbatim>\<open>textOriginal\<close>, all read under \<^verbatim>\<open>item['snippet']['topLevelComment']['snippet']\<close>.
  \<open>comment_of\<close> is \<open>None\<close> for an item that has no such fields.
\<close>

record comment =
  publishedAt :: string
  authorDisplayName :: string
  textOriginal :: string

definition snippet_of :: "json \<Rightarrow> json option" where
  "snippet_of item =
     (case subscript item ''snippet'' of Inl _ \<Rightarrow> None | Inr s1 \<Rightarrow>
      case subscript s1 ''topLevelComment'' of Inl _ \<Rightarrow> None | Inr s2 \<Rightarrow>
      case subscript s2 ''snippet'' of Inl _ \<Rightarrow> None | Inr s3 \<Rightarrow> Some s3)"

definition comment_of :: "python \<Rightarrow> json \<Rightarrow> comment option" where
  "comment_of py item =
     (case snippet_of item of None \<Rightarrow> None | Some sn \<Rightarrow>
      case subscript sn ''textOriginal'' of
        Inr (JStr t) \<Rightarrow>
          (case subscript sn ''publishedAt'' of Inl _ \<Rightarrow> None | Inr p \<Rightarrow>
           case subscript sn ''authorDisplayName'' of Inl _ \<Rightarrow> None | Inr a \<Rightarrow>
           Some \<lparr>publishedAt = format_field py p, authorDisplayName = format_field py a,
                 textOriginal = t\<rparr>)
      | _ \<Rightarrow> None)"

fun comments_of :: "python \<Rightarrow> json list \<Rightarrow> comment list option" where
  "comments_of py [] = Some []"
| "comments_of py (item # rest) =
     (case comment_of py item of None \<Rightarrow> None | Some c \<Rightarrow>
      case comments_of py rest of None \<Rightarrow> None | Some cs \<Rightarrow> Some (c # cs))"

text \<open>
  The text of a comment as it goes into its record: every carriage return deleted,
  every line feed replaced by a backslash and the letter n.
\<close>

definition transformed :: "string \<Rightarrow> string" where
  "transformed t = replace LF [BACKSLASH, CHR ''n''] (replace CR [] t)"

definition csv_record :: "comment \<Rightarrow> string" where
  "csv_record c =
     RECORD_FORMAT (publishedAt c) (authorDisplayName c) (transformed (textOriginal c))"

text \<open>
  A response read as a page: its next page token (\<open>JNull\<close> for none) and its
  comments. \<open>None\<close> for a response that is not a page of comments: a status other
  than 200, or a body that is not JSON of that shape.
\<close>

definition page_of :: "python \<Rightarrow> response \<Rightarrow> (json \<times> comment list) option" where
  "page_of py r =
     (if status_code r \<noteq> 200 then None
      else case parsed r of None \<Rightarrow> None | Some result \<Rightarrow>
           case next_page_token_of result of Inl _ \<Rightarrow> None | Inr t \<Rightarrow>
           case subscript result ''items'' of Inl _ \<Rightarrow> None | Inr its \<Rightarrow>
           case iterate its of Inl _ \<Rightarrow> None | Inr items \<Rightarrow>
           case comments_of py items of None \<Rightarrow> None | Some cs \<Rightarrow> Some (t, cs))"

text \<open>The \<open>k\<close>-th response of the API as a page, its token and its comments.\<close>

definition page_at :: "python \<Rightarrow> api \<Rightarrow> nat \<Rightarrow> (json \<times> comment list) option" where
  "page_at py api k = (case api k of None \<Rightarrow> None | Some r \<Rightarrow> page_of py r)"

definition token_at :: "python \<Rightarrow> api \<Rightarrow> nat \<Rightarrow> json" where
  "token_at py api k = (case page_at py api k of None \<Rightarrow> JNull | Some p \<Rightarrow> fst p)"

definition comments_at :: "python \<Rightarrow> api \<Rightarrow> nat \<Rightarrow> comment list" where
  "comments_at py api k = (case page_at py api k of None \<Rightarrow> [] | Some p \<Rightarrow> snd p)"

text \<open>The comments of the first \<open>n\<close> responses, in order.\<close>

definition fetched :: "python \<Rightarrow> api \<Rightarrow> nat \<Rightarrow> comment list" where
  "fetched py api n = concat (map (comments_at py api) [0..<n])"

text \<open>
  The loop goes on after its \<open>k\<close>-th response (counted from 0): the response is a
  page with a token, and the comments fetched so far do not exceed the limit.
\<close>

definition continues :: "python \<Rightarrow> api \<Rightarrow> int \<Rightarrow> nat \<Rightarrow> bool" where
  "continues py api limit k \<longleftrightarrow>
     page_at py api k \<noteq> None \<and> token_at py api k \<noteq> JNull \<and>
     int (length (fetched py api (Suc k))) \<le> limit"

text \<open>
  What the job has done once \<open>n\<close> pages are fetched and the loop goes on: the
  \<open>k\<close>-th request carries the token of the page before it, and each pass adds a
  request, one write for each comment and a flush.
\<close>

definition token_before :: "python \<Rightarrow> api \<Rightarrow> nat \<Rightarrow> json" where
  "token_before py api k = (case k of 0 \<Rightarrow> JNull | Suc j \<Rightarrow> token_at py api j)"

definition request_at :: "python \<Rightarrow> api \<Rightarrow> string \<Rightarrow> string \<Rightarrow> nat \<Rightarrow> request" where
  "request_at py api channel_id access_token k =
     commentThreads_request (token_before py api k) channel_id access_token"

definition pass_events :: "python \<Rightarrow> api \<Rightarrow> string \<Rightarrow> string \<Rightarrow> nat \<Rightarrow> event list" where
  "pass_events py api channel_id access_token k =
     Request (request_at py api channel_id access_token k)
       # map Write (map csv_record (comments_at py api k)) @ [Flush]"

definition trace_after :: "python \<Rightarrow> api \<Rightarrow> string \<Rightarrow> string \<Rightarrow> nat \<Rightarrow> event list" where
  "trace_after py api channel_id access_token n =
     concat (map (pass_events py api channel_id access_token) [0..<n])"

definition text_after :: "python \<Rightarrow> api \<Rightarrow> nat \<Rightarrow> string" where
  "text_after py api n = concat (map csv_record (fetched py api n))"

definition state_after :: "python \<Rightarrow> api \<Rightarrow> string \<Rightarrow> string \<Rightarrow> nat \<Rightarrow> loop_state" where
  "state_after py api channel_id access_token n =
     (token_before py api n, int (length (fetched py api n)),
      \<lparr>trace = trace_after py api channel_id access_token n,
       fp = \<lparr>content = text_after py api n, pos = length (text_after py api n),
             dirty = False\<rparr>\<rparr>)"

text \<open>\<open>n\<close> passes through the body of a loop, or fewer if one of them leaves it.\<close>

fun passes :: "nat \<Rightarrow> ('s \<Rightarrow> 'r + 's) \<Rightarrow> 's \<Rightarrow> 'r + 's" where
  "passes 0 body st = Inr st"
| "passes (Suc n) body st =
     (case body st of Inl r \<Rightarrow> Inl r | Inr st' \<Rightarrow> passes n body st')"

text \<open>
  The job returns after its \<open>n\<close>-th response (counted from 0): the loop goes on
  after each response before it, and that response is a page after which it does not.
\<close>

definition returns_after :: "python \<Rightarrow> api \<Rightarrow> int \<Rightarrow> nat \<Rightarrow> bool" where
  "returns_after py api limit n \<longleftrightarrow>
     (\<forall>k<n. continues py api limit k) \<and> page_at py api n \<noteq> None \<and> \<not> continues py api limit n"

text \<open>The world after a pass, whichever way the pass ends.\<close>

definition world_of :: "outcome + loop_state \<Rightarrow> world" where
  "world_of x = (case x of Inl r \<Rightarrow> snd r | Inr st \<Rightarrow> snd (snd st))"

section \<open>get\_tokens\<close>

text \<open>
  The dictionary that \<^verbatim>\<open>get_tokens\<close> returns; \<open>token_status_code\<close> is its key
  \<^verbatim>\<open>status_code\<close>. The two tokens are values of the response body, \<open>JNull\<close> for
  \<^verbatim>\<open>None\<close>.
\<close>

record tokens =
  success :: bool
  token_status_code :: int
  access_token :: json
  refresh_token :: json
  message :: string

text \<open>\<^verbatim>\<open>os.environ.get(name)\<close>: the value, or \<^verbatim>\<open>None\<close>.\<close>

definition environ_get :: "(string \<rightharpoonup> string) \<Rightarrow> string \<Rightarrow> json" where
  "environ_get environ name = (case environ name of None \<Rightarrow> JNull | Some v \<Rightarrow> JStr v)"

text \<open>Lines 119 to 122: the request to the token endpoint.\<close>

definition token_request :: "(string \<rightharpoonup> string) \<Rightarrow> string \<Rightarrow> request" where
  "token_request environ code =
     \<lparr>verb = ''POST'', url = ''https://oauth2.googleapis.com/token'',
      params = [(''code'', JStr code),
                (''grant_type'', JStr ''authorization_code''),
                (''client_secret'', environ_get environ ''CLIENT_SECRET''),
                (''client_id'', environ_get environ ''CLIENT_ID''),
                (''redirect_uri'', environ_get environ ''REDIRECT_URI'')],
      headers = [(''Content-Type'', ''application/json'')]\<rparr>"

text \<open>
  \<open>post\<close> is the token endpoint: the response to a request, \<open>None\<close> where
  \<^verbatim>\<open>requests.post\<close> raises.
\<close>

definition get_tokens ::
  "(string \<rightharpoonup> string) \<Rightarrow> (string \<rightharpoonup> string) \<Rightarrow> (request \<Rightarrow> response option) \<Rightarrow> error + tokens"
  where
  "get_tokens environ form post =
     (case form ''code'' of
        None \<Rightarrow> Inl (KeyError ''code'')
      | Some code \<Rightarrow>
     (case post (token_request environ code) of
        None \<Rightarrow> Inl RequestException
      | Some response \<Rightarrow>
          if status_code response = 200 then
            (case parsed response of
               None \<Rightarrow> Inl JSONDecodeError
             | Some result \<Rightarrow>
                (case subscript result ''access_token'' of
                   Inl e \<Rightarrow> Inl e
                 | Inr a \<Rightarrow>
                    (case subscript result ''refresh_token'' of
                       Inl e \<Rightarrow> Inl e
                     | Inr r \<Rightarrow>
                         Inr \<lparr>success = True, token_status_code = 200, access_token = a,
                              refresh_token = r, message = []\<rparr>)))
          else Inr \<lparr>success = False, token_status_code = status_code response,
                    access_token = JNull, refresh_token = JNull,
                    message = resp_text response\<rparr>))"

section \<open>Example inputs\<close>

text \<open>
  Python's \<^verbatim>\<open>str\<close> and \<^verbatim>\<open>int\<close> on the arguments that the examples below pass to
  them.
\<close>

definition example_python :: python where
  "example_python =
     \<lparr>py_str = (\<lambda>v. case v of JNull \<Rightarrow> ''None''
                      | JBool b \<Rightarrow> (if b then ''True'' else ''False'')
                      | _ \<Rightarrow> []),
      py_int = (\<lambda>s. if s = ''0'' then Some 0 else if s = ''1'' then Some 1
                     else if s = ''-1'' then Some (- 1) else None)\<rparr>"

definition example_form :: "string \<rightharpoonup> string" where
  "example_form = [''access_token'' \<mapsto> ''ya29'', ''channel_id'' \<mapsto> ''UC123'']"

text \<open>A comment thread item as the API sends it, with the three fields that are read.\<close>

definition comment_item :: "string \<Rightarrow> string \<Rightarrow> string \<Rightarrow> json" where
  "comment_item published author original =
     JObj [(''snippet'', JObj [(''topLevelComment'', JObj [(''snippet'',
       JObj [(''publishedAt'', JStr published), (''authorDisplayName'', JStr author),
             (''textOriginal'', JStr original)])])])]"

text \<open>
  A response with status 200 whose body is the JSON object of a page: the items,
  and the next page token if there is one. The text of the body is left out, since a
  response with status 200 is read through \<^verbatim>\<open>json.loads\<close> only.
\<close>

definition page_response :: "string option \<Rightarrow> json list \<Rightarrow> response" where
  "page_response next items =
     \<lparr>status_code = 200, resp_text = [],
      parsed = Some (JObj ((case next of None \<Rightarrow> [] | Some t \<Rightarrow> [(''nextPageToken'', JStr t)])
                           @ [(''items'', JArr items)]))\<rparr>"

text \<open>
  Two pages: one comment of two lines and a token, then two comments and no token.
\<close>

definition two_pages :: api where
  "two_pages k =
     (if k = 0 then
        Some (page_response (Some ''CDIQAA'')
          [comment_item ''2023-01-07T10:00:00Z'' ''alice'' (''one'' @ [CR, LF] @ ''two'')])
      else if k = 1 then
        Some (page_response None
          [comment_item ''2023-01-07T11:00:00Z'' ''bob'' ''three'',
           comment_item ''2023-01-07T12:00:00Z'' ''carol'' ''four''])
      else None)"

text \<open>A page with a comment and a token, then a response with status 403.\<close>

definition quota_exceeded :: api where
  "quota_exceeded k =
     (if k = 0 then
        Some (page_response (Some ''CDIQAA'')
          [comment_item ''2023-01-07T10:00:00Z'' ''alice'' ''one''])
      else Some \<lparr>status_code = 403, resp_text = ''quotaExceeded'', parsed = None\<rparr>)"

text \<open>Every response is a page with no comment and a token.\<close>

definition empty_pages :: api where
  "empty_pages k = Some (page_response (Some ''CDIQAA'') [])"

text \<open>One page with no comment and no token.\<close>

definition no_comments :: api where
  "no_comments k = (if k = 0 then Some (page_response None []) else None)"

text \<open>One page with one comment whose author's name has a carriage return in it.\<close>

definition author_with_cr :: api where
  "author_with_cr k =
     (if k = 0 then
        Some (page_response None
          [comment_item ''2023-01-07T10:00:00Z'' (''al'' @ [CR] @ ''ice'') ''one''])
      else None)"


text \<open>
  A token endpoint that answers with status 200 and the body
  \<^verbatim>\<open>{"access_token": "ya29"}\<close>, without a refresh token.
\<close>

definition no_refresh_token :: "request \<Rightarrow> response option" where
  "no_refresh_token r =
     Some \<lparr>status_code = 200, resp_text = [],
           parsed = Some (JObj [(''access_token'', JStr ''ya29'')])\<rparr>"

text \<open>A token endpoint that answers with both tokens, and one that refuses.\<close>

definition both_tokens :: "request \<Rightarrow> response option" where
  "both_tokens r =
     Some \<lparr>status_code = 200, resp_text = [],
           parsed = Some (JObj [(''access_token'', JStr ''ya29''),
                                (''refresh_token'', JStr ''1//0g'')])\<rparr>"

definition invalid_grant :: "request \<Rightarrow> response option" where
  "invalid_grant r = Some \<lparr>status_code = 400, resp_text = ''invalid_grant'', parsed = None\<rparr>"

section \<open>Properties of list\_comments\<close>


lemma format_item_comment:
  "format_item py item = Inr line \<longleftrightarrow> (\<exists>c. comment_of py item = Some c \<and> line = csv_record c)"
  by (auto simp: format_item_def comment_of_def snippet_of_def csv_record_def transformed_def
      split: sum.splits json.splits option.splits)

lemma write_items_ok:
  "comments_of py items = Some cs \<Longrightarrow>
   write_items py items n w = (Inr (n + int (length cs)), fold f_write (map csv_record cs) w)"
proof (induction items arbitrary: cs n w)
  case Nil
  then show ?case by simp
next
  case (Cons item rest)
  from Cons.prems obtain c cs' where c: "comment_of py item = Some c"
    and cs': "comments_of py rest = Some cs'" and cs: "cs = c # cs'"
    by (auto split: option.splits)
  from c have "format_item py item = Inr (csv_record c)"
    by (simp add: format_item_comment)
  with Cons.IH [OF cs'] cs show ?case by simp
qed

lemma write_items_error:
  "comments_of py items = None \<Longrightarrow> \<exists>e ls. write_items py items n w = (Inl e, fold f_write ls w)"
proof (induction items arbitrary: n w)
  case Nil
  then show ?case by simp
next
  case (Cons item rest)
  show ?case
  proof (cases "format_item py item")
    case (Inl e)
    have "w = fold f_write [] w" by simp
    with Inl show ?thesis by (metis write_items.simps(2) sum.simps(5))
  next
    case (Inr line)
    then obtain c where c: "comment_of py item = Some c" 
      by (auto simp: format_item_comment)
    with Cons.prems have "comments_of py rest = None" by (auto split: option.splits)
    from Cons.IH [OF this, of "n + 1" "f_write line w"] obtain e ls where
      "write_items py rest (n + 1) (f_write line w) = (Inl e, fold f_write ls (f_write line w))"
      by blast
    with Inr have "write_items py (item # rest) n w = (Inl e, fold f_write (line # ls) w)"
      by simp
    then show ?thesis by blast
  qed
qed

lemma trace_fold_f_write: "trace (fold f_write ls w) = trace w @ map Write ls"
  by (induction ls arbitrary: w) (simp_all add: f_write_def Let_def)

lemma fp_fold_f_write:
  "pos (fp w) = length (content (fp w)) \<Longrightarrow>
   fp (fold f_write ls w) =
     \<lparr>content = content (fp w) @ concat ls,
      pos = length (content (fp w) @ concat ls),
      dirty = (dirty (fp w) \<or> ls \<noteq> [])\<rparr>"
proof (induction ls arbitrary: w)
  case Nil
  then show ?case by simp
next
  case (Cons l ls)
  have 1: "pos (fp (f_write l w)) = length (content (fp (f_write l w)))"
    using Cons.prems by (simp add: f_write_def Let_def)
  have 2: "content (fp (f_write l w)) = content (fp w) @ l"
    using Cons.prems by (simp add: f_write_def Let_def)
  have 3: "dirty (fp (f_write l w))" by (simp add: f_write_def Let_def)
  show ?case using Cons.IH [OF 1] 2 3 by simp
qed

lemma requests_of_append: "requests_of (es @ es') = requests_of es @ requests_of es'"
  by (induction es rule: requests_of.induct) simp_all

lemma requests_of_Write: "requests_of (map Write ls) = []"
  by (induction ls) simp_all

lemma requests_of_Write_comp: "requests_of (map (Write \<circ> f) xs) = []"
  by (induction xs) simp_all

lemma list_comments_page:
  assumes "api (length (requests_of (trace w))) = Some r" and "page_of py r = Some (t, cs)"
  shows "list_comments py api tok ch at w =
    (Inr \<lparr>token = t, count = int (length cs)\<rparr>,
     f_flush (fold f_write (map csv_record cs)
        (w\<lparr>trace := trace w @ [Request (commentThreads_request tok ch at)]\<rparr>)))"
  using assms
  by (auto simp: list_comments_def requests_get_def page_of_def write_items_ok
      split: if_splits option.splits sum.splits)

lemma list_comments_status:
  assumes "api (length (requests_of (trace w))) = Some r" and "status_code r \<noteq> 200"
  shows "list_comments py api tok ch at w =
    (Inl (APIException (status_code r) (resp_text r)),
     w\<lparr>trace := trace w @ [Request (commentThreads_request tok ch at)]\<rparr>)"
  using assms by (simp add: list_comments_def requests_get_def)

lemma list_comments_no_response:
  assumes "api (length (requests_of (trace w))) = None"
  shows "list_comments py api tok ch at w =
    (Inl RequestException, w\<lparr>trace := trace w @ [Request (commentThreads_request tok ch at)]\<rparr>)"
  using assms by (simp add: list_comments_def requests_get_def)

lemma write_items_world: "\<exists>ls. snd (write_items py items n w) = fold f_write ls w"
proof (induction items arbitrary: n w)
  case Nil
  have "w = fold f_write [] w" by simp
  then show ?case by (metis write_items.simps(1) snd_conv)
next
  case (Cons item rest)
  show ?case
  proof (cases "format_item py item")
    case (Inl e)
    have "w = fold f_write [] w" by simp
    with Inl show ?thesis by (metis write_items.simps(2) sum.simps(5) snd_conv)
  next
    case (Inr line)
    from Cons.IH [of "n + 1" "f_write line w"] obtain ls where
      "snd (write_items py rest (n + 1) (f_write line w)) = fold f_write ls (f_write line w)"
      by blast
    with Inr have "snd (write_items py (item # rest) n w) = fold f_write (line # ls) w"
      by simp
    then show ?thesis by blast
  qed
qed

lemma list_comments_raises:
  assumes "list_comments py api tok ch at w = (Inl e, w1)"
  shows "\<exists>ls. w1 = fold f_write ls (w\<lparr>trace := trace w @ [Request (commentThreads_request tok ch at)]\<rparr>)"
proof -
  let ?w1 = "w\<lparr>trace := trace w @ [Request (commentThreads_request tok ch at)]\<rparr>"
  have triv: "\<exists>ls. ?w1 = fold f_write ls ?w1" by (rule exI [of _ "[]"]) simp
  have wi: "\<And>items e' w'. write_items py items 0 ?w1 = (e', w') \<Longrightarrow> \<exists>ls. w' = fold f_write ls ?w1"
    using write_items_world [of py _ 0 ?w1] by (metis snd_conv)
  from assms triv wi show ?thesis
    by (auto simp: list_comments_def requests_get_def
        split: if_splits option.splits sum.splits prod.splits)
qed


lemma list_comments_not_page:
  assumes "api (length (requests_of (trace w))) = Some r" and "page_of py r = None"
  shows "\<exists>e w1. list_comments py api tok ch at w = (Inl e, w1)"
proof -
  let ?w1 = "w\<lparr>trace := trace w @ [Request (commentThreads_request tok ch at)]\<rparr>"
  have wi: "\<And>items. comments_of py items = None \<Longrightarrow>
      \<exists>e w'. write_items py items 0 ?w1 = (Inl e, w')"
    using write_items_error [of py _ 0 ?w1] by blast
  from assms show ?thesis
    by (auto simp: list_comments_def requests_get_def page_of_def
        split: if_splits option.splits sum.splits prod.splits dest!: wi)
qed

section \<open>The state of the loop after a number of passes\<close>

lemma fetched_Suc: "fetched py api (Suc n) = fetched py api n @ comments_at py api n"
  by (simp add: fetched_def)

lemma trace_after_Suc:
  "trace_after py api ch at (Suc n) = trace_after py api ch at n @ pass_events py api ch at n"
  by (simp add: trace_after_def)

lemma text_after_Suc:
  "text_after py api (Suc n) = text_after py api n @ concat (map csv_record (comments_at py api n))"
  by (simp add: text_after_def fetched_Suc)

lemma requests_of_pass_events:
  "requests_of (pass_events py api ch at k) = [request_at py api ch at k]"
  by (simp add: pass_events_def requests_of_append requests_of_Write_comp)

lemma requests_of_trace_after:
  "requests_of (trace_after py api ch at n) = map (request_at py api ch at) [0..<n]"
  by (induction n) (simp_all add: trace_after_Suc requests_of_append requests_of_pass_events,
      simp add: trace_after_def)

lemma list_comments_after:
  assumes "page_at py api n = Some (t, cs)"
  shows "list_comments py api (token_before py api n) ch at (snd (snd (state_after py api ch at n))) =
    (Inr \<lparr>token = t, count = int (length cs)\<rparr>,
     \<lparr>trace = trace_after py api ch at (Suc n),
      fp = \<lparr>content = text_after py api (Suc n), pos = length (text_after py api (Suc n)),
            dirty = False\<rparr>\<rparr>)"
proof -
  let ?w = "snd (snd (state_after py api ch at n))"
  from assms obtain r where r: "api n = Some r" and p: "page_of py r = Some (t, cs)"
    by (auto simp: page_at_def split: option.splits)
  have len: "length (requests_of (trace ?w)) = n"
    by (simp add: state_after_def requests_of_trace_after)
  have cs: "comments_at py api n = cs" using assms by (simp add: comments_at_def)
  let ?w1 = "?w\<lparr>trace := trace ?w @ [Request (commentThreads_request (token_before py api n) ch at)]\<rparr>"
  have end1: "pos (fp ?w1) = length (content (fp ?w1))" by (simp add: state_after_def)
  have "list_comments py api (token_before py api n) ch at ?w =
    (Inr \<lparr>token = t, count = int (length cs)\<rparr>, f_flush (fold f_write (map csv_record cs) ?w1))"
    using r p len by (intro list_comments_page) simp_all
  moreover have "f_flush (fold f_write (map csv_record cs) ?w1) =
     \<lparr>trace = trace_after py api ch at (Suc n),
      fp = \<lparr>content = text_after py api (Suc n), pos = length (text_after py api (Suc n)),
            dirty = False\<rparr>\<rparr>"
    using fp_fold_f_write [OF end1, of "map csv_record cs"]
    by (simp add: f_flush_def trace_fold_f_write trace_after_Suc text_after_Suc cs
        pass_events_def request_at_def state_after_def)
  ultimately show ?thesis by simp
qed


lemma state_after_0: "state_after py api ch at 0 = (JNull, 0, new_world)"
  by (simp add: state_after_def token_before_def fetched_def trace_after_def text_after_def
      new_world_def)

lemma requests_after:
  "length (requests_of (trace (snd (snd (state_after py api ch at n))))) = n"
  by (simp add: state_after_def requests_of_trace_after)

section \<open>The four ways a pass can end\<close>

lemma loop_body_continue:
  assumes "continues py api limit k"
  shows "loop_body py api limit ch at (state_after py api ch at k) =
         Inr (state_after py api ch at (Suc k))"
proof -
  from assms obtain t cs where p: "page_at py api k = Some (t, cs)"
    by (auto simp: continues_def)
  with assms have t: "t \<noteq> JNull" and "int (length (fetched py api (Suc k))) \<le> limit"
    by (simp_all add: continues_def token_at_def)
  moreover from p have "comments_at py api k = cs" by (simp add: comments_at_def)
  moreover from p have "token_at py api k = t" by (simp add: token_at_def)
  ultimately show ?thesis
    using list_comments_after [OF p, of ch at]
    by (simp add: loop_body_def state_after_def fetched_Suc token_before_def)
qed

lemma loop_body_stop:
  assumes "page_at py api k = Some (t, cs)" and "\<not> continues py api limit k"
  shows "loop_body py api limit ch at (state_after py api ch at k) =
         Inl (Inr (universal_newlines (text_after py api (Suc k))),
              \<lparr>trace = trace_after py api ch at (Suc k) @ [Seek 0, Read],
               fp = \<lparr>content = text_after py api (Suc k),
                     pos = length (text_after py api (Suc k)), dirty = False\<rparr>\<rparr>)"
proof -
  from assms have c: "comments_at py api k = cs" and "token_at py api k = t"
    by (simp_all add: comments_at_def token_at_def)
  with assms have "t = JNull \<or> \<not> int (length (fetched py api k)) + int (length cs) \<le> limit"
    by (auto simp: continues_def fetched_Suc)
  then show ?thesis
    using list_comments_after [OF assms(1), of ch at] c
    by (auto simp: loop_body_def state_after_def fetched_Suc f_read_def f_seek_def Let_def)
qed

lemma loop_body_status:
  assumes "api k = Some r" and "status_code r \<noteq> 200"
  shows "loop_body py api limit ch at (state_after py api ch at k) =
         Inl (Inl (APIException (status_code r) (resp_text r)),
              \<lparr>trace = trace_after py api ch at k @ [Request (request_at py api ch at k)],
               fp = \<lparr>content = text_after py api k,
                     pos = length (text_after py api k), dirty = False\<rparr>\<rparr>)"
proof -
  let ?w = "snd (snd (state_after py api ch at k))"
  from assms have "api (length (requests_of (trace ?w))) = Some r"
    by (simp add: requests_after)
  from list_comments_status [of api ?w r py "token_before py api k" ch at, OF this assms(2)]
  show ?thesis
    by (simp add: loop_body_def state_after_def request_at_def)
qed

lemma loop_body_raises:
  assumes "page_at py api k = None"
  shows "\<exists>e ls. loop_body py api limit ch at (state_after py api ch at k) =
         Inl (Inl e, fold f_write ls
              \<lparr>trace = trace_after py api ch at k @ [Request (request_at py api ch at k)],
               fp = \<lparr>content = text_after py api k,
                     pos = length (text_after py api k), dirty = False\<rparr>\<rparr>)"
proof -
  let ?w = "snd (snd (state_after py api ch at k))"
  let ?tok = "token_before py api k"
  have len: "length (requests_of (trace ?w)) = k" by (rule requests_after)
  have "\<exists>e w1. list_comments py api ?tok ch at ?w = (Inl e, w1)"
  proof (cases "api k")
    case None
    then show ?thesis using list_comments_no_response [of api ?w py ?tok ch at] len by simp
  next
    case (Some r)
    with assms have "page_of py r = None" by (simp add: page_at_def)
    with Some len show ?thesis using list_comments_not_page [of api ?w r py ?tok ch at] by simp
  qed
  then obtain e w1 where lc: "list_comments py api ?tok ch at ?w = (Inl e, w1)" by blast
  from list_comments_raises [OF lc] obtain ls where
    "w1 = fold f_write ls (?w\<lparr>trace := trace ?w @ [Request (commentThreads_request ?tok ch at)]\<rparr>)"
    by blast
  with lc have "loop_body py api limit ch at (state_after py api ch at k) =
         Inl (Inl e, fold f_write ls
              \<lparr>trace = trace_after py api ch at k @ [Request (request_at py api ch at k)],
               fp = \<lparr>content = text_after py api k,
                     pos = length (text_after py api k), dirty = False\<rparr>\<rparr>)"
    by (simp add: loop_body_def state_after_def request_at_def)
  then show ?thesis by blast
qed

section \<open>Passes and the loop\<close>

lemma passes_Suc_end:
  "passes (Suc n) body st = (case passes n body st of Inl r \<Rightarrow> Inl r | Inr st' \<Rightarrow> body st')"
proof (induction n arbitrary: st)
  case 0
  show ?case by (simp split: sum.splits)
next
  case (Suc n)
  show ?case
  proof (cases "body st")
    case (Inl r)
    then show ?thesis by simp
  next
    case (Inr st')
    have "passes (Suc (Suc n)) body st = passes (Suc n) body st'"
      using Inr by simp
    also have "\<dots> = (case passes n body st' of Inl r \<Rightarrow> Inl r | Inr st'' \<Rightarrow> body st'')"
      by (rule Suc.IH)
    also have "passes n body st' = passes (Suc n) body st" using Inr by simp
    finally show ?thesis .
  qed
qed

lemma passes_continue:
  assumes "\<forall>k<n. continues py api limit k"
  shows "passes n (loop_body py api limit ch at) (JNull, 0, new_world) = Inr (state_after py api ch at n)"
  using assms
proof (induction n)
  case 0
  show ?case by (simp add: state_after_0)
next
  case (Suc n)
  then have "passes n (loop_body py api limit ch at) (JNull, 0, new_world) = Inr (state_after py api ch at n)"
    and "continues py api limit n" by simp_all
  then show ?case by (simp add: passes_Suc_end loop_body_continue del: passes.simps)
qed

lemma loop_body_Inr:
  assumes "loop_body py api limit ch at (state_after py api ch at k) = Inr st"
  shows "continues py api limit k"
proof (rule ccontr)
  assume n: "\<not> continues py api limit k"
  show False
  proof (cases "page_at py api k")
    case None
    from loop_body_raises [OF this, of limit ch at] assms show False by auto
  next
    case (Some p)
    then have "page_at py api k = Some (fst p, snd p)" by simp
    from loop_body_stop [OF this n, of ch at] assms show False by simp
  qed
qed

lemma passes_Inr:
  assumes "passes n (loop_body py api limit ch at) (JNull, 0, new_world) = Inr st"
  shows "(\<forall>k<n. continues py api limit k) \<and> st = state_after py api ch at n"
  using assms
proof (induction n arbitrary: st)
  case 0
  then show ?case by (simp add: state_after_0)
next
  case (Suc n)
  let ?body = "loop_body py api limit ch at"
  from Suc.prems obtain st' where p: "passes n ?body (JNull, 0, new_world) = Inr st'"
    and b: "?body st' = Inr st"
    by (auto simp: passes_Suc_end simp del: passes.simps split: sum.splits)
  from Suc.IH [OF p] have all: "\<forall>k<n. continues py api limit k"
    and st': "st' = state_after py api ch at n" by simp_all
  from b st' have c: "continues py api limit n" by (auto dest: loop_body_Inr)
  with b st' have "st = state_after py api ch at (Suc n)" by (simp add: loop_body_continue)
  with all c show ?case by (auto simp: less_Suc_eq)
qed

lemma fetch_loop_passes:
  "passes n (loop_body py api limit ch at) st = Inr st' \<Longrightarrow>
   fetch_loop py api limit ch at st = fetch_loop py api limit ch at st'"
proof (induction n arbitrary: st)
  case 0
  then show ?case by simp
next
  case (Suc n)
  then show ?case
    by (subst fetch_loop.simps) (auto split: sum.splits)
qed

lemma fetch_loop_exit:
  "loop_body py api limit ch at st = Inl r \<Longrightarrow> fetch_loop py api limit ch at st = Some r"
  by (subst fetch_loop.simps) simp

lemma fetch_loop_Some:
  assumes "fetch_loop py api limit ch at st = Some r"
  shows "\<exists>n st'. passes n (loop_body py api limit ch at) st = Inr st' \<and>
           loop_body py api limit ch at st' = Inl r"
proof (rule fetch_loop.raw_induct [where P = "\<lambda>py api limit ch at st r.
     \<exists>n st'. passes n (loop_body py api limit ch at) st = Inr st' \<and>
           loop_body py api limit ch at st' = Inl r", OF _ assms])
  fix f py api limit ch at st r
  assume IH: "\<And>py api limit ch at st r. f py api limit ch at st = Some r \<Longrightarrow>
     \<exists>n st'. passes n (loop_body py api limit ch at) st = Inr st' \<and>
           loop_body py api limit ch at st' = Inl r"
    and eq: "(case loop_body py api limit ch at st of Inl r \<Rightarrow> Some r
              | Inr st' \<Rightarrow> f py api limit ch at st') = Some r"
  show "\<exists>n st'. passes n (loop_body py api limit ch at) st = Inr st' \<and>
           loop_body py api limit ch at st' = Inl r"
  proof (cases "loop_body py api limit ch at st")
    case (Inl r')
    with eq have "r' = r" by simp
    with Inl have "passes 0 (loop_body py api limit ch at) st = Inr st \<and>
         loop_body py api limit ch at st = Inl r" by simp
    then show ?thesis by blast
  next
    case (Inr st1)
    with eq have "f py api limit ch at st1 = Some r" by simp
    from IH [OF this] obtain n st' where
      "passes n (loop_body py api limit ch at) st1 = Inr st'"
      "loop_body py api limit ch at st' = Inl r" by auto
    with Inr have "passes (Suc n) (loop_body py api limit ch at) st = Inr st' \<and>
         loop_body py api limit ch at st' = Inl r" by simp
    then show ?thesis by blast
  qed
qed


section \<open>How a job ends\<close>

lemma fetch_loop_returns:
  assumes "returns_after py api limit n"
  shows "fetch_loop py api limit ch at (JNull, 0, new_world) =
     Some (Inr (universal_newlines (text_after py api (Suc n))),
           \<lparr>trace = trace_after py api ch at (Suc n) @ [Seek 0, Read],
            fp = \<lparr>content = text_after py api (Suc n),
                  pos = length (text_after py api (Suc n)), dirty = False\<rparr>\<rparr>)"
proof -
  from assms have c: "\<forall>k<n. continues py api limit k" and n: "\<not> continues py api limit n"
    by (simp_all add: returns_after_def)
  from assms obtain t cs where p: "page_at py api n = Some (t, cs)"
    by (auto simp: returns_after_def)
  have "fetch_loop py api limit ch at (JNull, 0, new_world) =
        fetch_loop py api limit ch at (state_after py api ch at n)"
    using passes_continue [OF c] by (rule fetch_loop_passes)
  also have "\<dots> = Some (Inr (universal_newlines (text_after py api (Suc n))),
           \<lparr>trace = trace_after py api ch at (Suc n) @ [Seek 0, Read],
            fp = \<lparr>content = text_after py api (Suc n),
                  pos = length (text_after py api (Suc n)), dirty = False\<rparr>\<rparr>)"
    using loop_body_stop [OF p n] by (rule fetch_loop_exit)
  finally show ?thesis .
qed

lemma fetch_loop_status:
  assumes "\<forall>k<n. continues py api limit k" and "api n = Some r" and "status_code r \<noteq> 200"
  shows "fetch_loop py api limit ch at (JNull, 0, new_world) =
     Some (Inl (APIException (status_code r) (resp_text r)),
              \<lparr>trace = trace_after py api ch at n @ [Request (request_at py api ch at n)],
               fp = \<lparr>content = text_after py api n,
                     pos = length (text_after py api n), dirty = False\<rparr>\<rparr>)"
proof -
  have "fetch_loop py api limit ch at (JNull, 0, new_world) =
        fetch_loop py api limit ch at (state_after py api ch at n)"
    using passes_continue [OF assms(1)] by (rule fetch_loop_passes)
  also have "\<dots> = Some (Inl (APIException (status_code r) (resp_text r)),
              \<lparr>trace = trace_after py api ch at n @ [Request (request_at py api ch at n)],
               fp = \<lparr>content = text_after py api n,
                     pos = length (text_after py api n), dirty = False\<rparr>\<rparr>)"
    using loop_body_status [of api n r py limit ch at, OF assms(2,3)] by (rule fetch_loop_exit)
  finally show ?thesis .
qed

lemma fetch_loop_finished:
  assumes "fetch_loop py api limit ch at (JNull, 0, new_world) = Some r"
  shows "\<exists>n. (\<forall>k<n. continues py api limit k) \<and> \<not> continues py api limit n \<and>
             loop_body py api limit ch at (state_after py api ch at n) = Inl r"
proof -
  from fetch_loop_Some [OF assms] obtain n st' where
    p: "passes n (loop_body py api limit ch at) (JNull, 0, new_world) = Inr st'"
    and b: "loop_body py api limit ch at st' = Inl r" by blast
  from passes_Inr [OF p] have c: "\<forall>k<n. continues py api limit k"
    and st': "st' = state_after py api ch at n" by simp_all
  from b st' have "\<not> continues py api limit n"
    by (auto simp: loop_body_continue)
  with c b st' show ?thesis by blast
qed

lemma fetch_loop_returned:
  assumes "fetch_loop py api limit ch at (JNull, 0, new_world) = Some (Inr csv, w)"
  shows "\<exists>n. returns_after py api limit n \<and>
             csv = universal_newlines (text_after py api (Suc n)) \<and>
             w = \<lparr>trace = trace_after py api ch at (Suc n) @ [Seek 0, Read],
                  fp = \<lparr>content = text_after py api (Suc n),
                        pos = length (text_after py api (Suc n)), dirty = False\<rparr>\<rparr>"
proof -
  from fetch_loop_finished [OF assms] obtain n where
    c: "\<forall>k<n. continues py api limit k" and n: "\<not> continues py api limit n"
    and b: "loop_body py api limit ch at (state_after py api ch at n) = Inl (Inr csv, w)"
    by blast
  have p: "page_at py api n \<noteq> None"
  proof
    assume "page_at py api n = None"
    from loop_body_raises [OF this, of limit ch at] b show False by auto
  qed
  then obtain t cs where "page_at py api n = Some (t, cs)" by auto
  from loop_body_stop [OF this n, of ch at] b
  have "csv = universal_newlines (text_after py api (Suc n)) \<and>
             w = \<lparr>trace = trace_after py api ch at (Suc n) @ [Seek 0, Read],
                  fp = \<lparr>content = text_after py api (Suc n),
                        pos = length (text_after py api (Suc n)), dirty = False\<rparr>\<rparr>"
    by simp
  with c n p show ?thesis unfolding returns_after_def by blast
qed

lemma fetch_loop_raised:
  assumes "fetch_loop py api limit ch at (JNull, 0, new_world) = Some (Inl e, w)"
  shows "\<exists>n ls. (\<forall>k<n. continues py api limit k) \<and> page_at py api n = None \<and>
             w = fold f_write ls
              \<lparr>trace = trace_after py api ch at n @ [Request (request_at py api ch at n)],
               fp = \<lparr>content = text_after py api n,
                     pos = length (text_after py api n), dirty = False\<rparr>\<rparr>"
proof -
  from fetch_loop_finished [OF assms] obtain n where
    c: "\<forall>k<n. continues py api limit k" and n: "\<not> continues py api limit n"
    and b: "loop_body py api limit ch at (state_after py api ch at n) = Inl (Inl e, w)"
    by blast
  have p: "page_at py api n = None"
  proof (rule ccontr)
    assume "page_at py api n \<noteq> None"
    then obtain t cs where "page_at py api n = Some (t, cs)" by auto
    from loop_body_stop [OF this n, of ch at] b show False by simp
  qed
  from loop_body_raises [OF p, of limit ch at] b c p show ?thesis by auto
qed

section \<open>Evaluating the examples\<close>

lemmas example_simps =
  example_python_def example_form_def comment_item_def page_response_def
  page_at_def page_of_def next_page_token_of_def comment_of_def snippet_of_def
  token_at_def comments_at_def fetched_def continues_def format_field_def

lemma example_inputs:
  "example_form ''access_token'' = Some ''ya29''"
  "example_form ''channel_id'' = Some ''UC123''"
  "py_int example_python ''0'' = Some 0"
  "py_int example_python ''1'' = Some 1"
  "py_int example_python ''-1'' = Some (- 1)"
  by (simp_all add: example_form_def example_python_def)

section \<open>A response with a status other than 200\<close>

text \<open>
  Claim C5. There is no retry. When the response to the \<open>n\<close>-th request (counted
  from 0) has a status other than 200, \<open>list_comments\<close> raises \<open>APIException\<close> with
  that status code and the text of that response. \<open>execute_job\<close> then raises the
  same exception and returns no text: the failed request is the last thing it does
  before the scratch file is closed, and it has issued \<open>n + 1\<close> requests in all.
\<close>

theorem api_error_propagates:
  assumes "form ''access_token'' = Some at" and "form ''channel_id'' = Some ch"
    and "environ ''LIMIT'' = Some s" and "py_int py s = Some limit"
    and "\<forall>k<n. continues py api limit k"
    and "api n = Some r" and "status_code r \<noteq> 200"
  shows "(\<forall>tok w0. length (requests_of (trace w0)) = n \<longrightarrow>
            fst (list_comments py api tok ch at w0) =
              Inl (APIException (status_code r) (resp_text r))) \<and>
         (\<exists>es q. execute_job py environ form api =
              Some (Inl (APIException (status_code r) (resp_text r)),
                    \<lparr>trace = es @ [Request q, Close],
                     fp = \<lparr>content = text_after py api n,
                           pos = length (text_after py api n), dirty = False\<rparr>\<rparr>) \<and>
            length (requests_of es) = n)"
proof
  show "\<forall>tok w0. length (requests_of (trace w0)) = n \<longrightarrow>
            fst (list_comments py api tok ch at w0) =
              Inl (APIException (status_code r) (resp_text r))"
    using assms(6,7) by (simp add: list_comments_status)
next
  have "execute_job py environ form api =
     Some (Inl (APIException (status_code r) (resp_text r)),
           \<lparr>trace = trace_after py api ch at n @ [Request (request_at py api ch at n), Close],
            fp = \<lparr>content = text_after py api n,
                  pos = length (text_after py api n), dirty = False\<rparr>\<rparr>)"
    using fetch_loop_status [OF assms(5,6,7), of ch at]
    using assms(1-4) by (simp add: execute_job_def f_close_def)
  moreover have "length (requests_of (trace_after py api ch at n)) = n"
    by (simp add: requests_of_trace_after)
  ultimately show "\<exists>es q. execute_job py environ form api =
              Some (Inl (APIException (status_code r) (resp_text r)),
                    \<lparr>trace = es @ [Request q, Close],
                     fp = \<lparr>content = text_after py api n,
                           pos = length (text_after py api n), dirty = False\<rparr>\<rparr>) \<and>
            length (requests_of es) = n"
    by blast
qed

lemma continues_quota_0: "continues example_python quota_exceeded 1 0"
  by (simp add: example_simps quota_exceeded_def)

theorem api_error_propagates_witness:
  "\<exists>es q. execute_job example_python [''LIMIT'' \<mapsto> ''1''] example_form quota_exceeded =
      Some (Inl (APIException 403 ''quotaExceeded''),
            \<lparr>trace = es @ [Request q, Close],
             fp = \<lparr>content = text_after example_python quota_exceeded 1,
                   pos = length (text_after example_python quota_exceeded 1), dirty = False\<rparr>\<rparr>) \<and>
      length (requests_of es) = 1"
proof -
  have 1: "example_form ''access_token'' = Some ''ya29''"
    and 2: "example_form ''channel_id'' = Some ''UC123''"
    and 3: "[''LIMIT'' \<mapsto> ''1''] ''LIMIT'' = Some ''1''"
    and 4: "py_int example_python ''1'' = Some 1"
    by (simp_all add: example_form_def example_python_def)
  have 5: "\<forall>k<1. continues example_python quota_exceeded 1 k"
    using continues_quota_0 by simp
  have 6: "quota_exceeded 1 = Some \<lparr>status_code = 403, resp_text = ''quotaExceeded'', parsed = None\<rparr>"
    by (simp add: quota_exceeded_def)
  have 7: "status_code \<lparr>status_code = 403, resp_text = ''quotaExceeded'', parsed = None\<rparr> \<noteq> 200"
    by simp
  from api_error_propagates [where form = example_form and environ = "[''LIMIT'' \<mapsto> ''1'']"
      and api = quota_exceeded and n = 1, OF 1 2 3 4 5 6 7]
  show ?thesis by simp
qed

section \<open>One pass of the loop\<close>

lemma page_of_token:
  assumes "page_of py r = Some (t, cs)"
  shows "\<exists>result. parsed r = Some result \<and>
           (if t = JNull
            then subscript result ''nextPageToken'' = Inl (KeyError ''nextPageToken'') \<or>
                 subscript result ''nextPageToken'' = Inr JNull
            else subscript result ''nextPageToken'' = Inr t)"
proof -
  from assms obtain result where p: "parsed r = Some result"
    and t: "next_page_token_of result = Inr t"
    and "\<exists>its. subscript result ''items'' = Inr its"
    by (auto simp: page_of_def split: if_splits option.splits sum.splits)
  then obtain kvs where kvs: "result = JObj kvs" by (cases result) auto
  have "if t = JNull
        then subscript result ''nextPageToken'' = Inl (KeyError ''nextPageToken'') \<or>
             subscript result ''nextPageToken'' = Inr JNull
        else subscript result ''nextPageToken'' = Inr t"
  proof (cases "map_of kvs ''nextPageToken''")
    case None
    then have "''nextPageToken'' \<notin> fst ` set kvs" by (simp add: map_of_eq_None_iff)
    with t kvs None show ?thesis by (simp add: next_page_token_of_def)
  next
    case (Some v)
    then have "''nextPageToken'' \<in> fst ` set kvs" by (metis map_of_eq_None_iff option.distinct(1))
    with t kvs Some show ?thesis by (auto simp: next_page_token_of_def)
  qed
  with p show ?thesis by blast
qed

lemma page_at_two_pages_0:
  "two_pages 0 = Some (page_response (Some ''CDIQAA'')
          [comment_item ''2023-01-07T10:00:00Z'' ''alice'' (''one'' @ [CR, LF] @ ''two'')])"
  by (simp add: two_pages_def)

lemma page_of_two_pages_0:
  "page_of example_python (page_response (Some ''CDIQAA'')
          [comment_item ''2023-01-07T10:00:00Z'' ''alice'' (''one'' @ [CR, LF] @ ''two'')]) =
   Some (JStr ''CDIQAA'', [\<lparr>publishedAt = ''2023-01-07T10:00:00Z'', authorDisplayName = ''alice'',
       textOriginal = ''one'' @ [CR, LF] @ ''two''\<rparr>])"
  by (simp add: example_simps)

text \<open>
  Claim C2. One pass of the loop of \<open>execute_job\<close>, from any token, count and
  world, when the response to its request is a page with the token \<open>t\<close> and the
  comments \<open>cs\<close>. \<open>list_comments\<close> returns that token and the number of these
  comments. The page has no token (\<open>t\<close> is \<^verbatim>\<open>None\<close>) exactly when its body has no
  key \<^verbatim>\<open>nextPageToken\<close> or has \<^verbatim>\<open>null\<close> under it. The pass leaves the loop and
  returns the text buffered in the scratch file exactly when the page has no token
  or the accumulated count is greater than the limit; in every other case the loop
  makes another pass, with the token of the page and the accumulated count. The
  limit of the loop of a job is \<^verbatim>\<open>int\<close> of the environment variable \<^verbatim>\<open>LIMIT\<close>, and
  its first pass starts with no token and the count 0.
\<close>

theorem loop_stops_or_goes_on:
  assumes "api (length (requests_of (trace w))) = Some r" and "page_of py r = Some (t, cs)"
  shows "fst (list_comments py api tok ch at w) = Inr \<lparr>token = t, count = int (length cs)\<rparr> \<and>
     (t = JNull \<longleftrightarrow>
        (\<exists>result. parsed r = Some result \<and>
           (subscript result ''nextPageToken'' = Inl (KeyError ''nextPageToken'') \<or>
            subscript result ''nextPageToken'' = Inr JNull))) \<and>
     loop_body py api limit ch at (tok, total_count, w) =
       (if t = JNull \<or> limit < total_count + int (length cs)
        then Inl (Inr (universal_newlines (content (fp (snd (list_comments py api tok ch at w))))),
                  snd (f_read (f_seek 0 (snd (list_comments py api tok ch at w)))))
        else Inr (t, total_count + int (length cs), snd (list_comments py api tok ch at w))) \<and>
     fetch_loop py api limit ch at (tok, total_count, w) =
       (if t = JNull \<or> limit < total_count + int (length cs)
        then Some (Inr (universal_newlines (content (fp (snd (list_comments py api tok ch at w))))),
                   snd (f_read (f_seek 0 (snd (list_comments py api tok ch at w)))))
        else fetch_loop py api limit ch at
               (t, total_count + int (length cs), snd (list_comments py api tok ch at w))) \<and>
     (form ''access_token'' = Some at \<longrightarrow> form ''channel_id'' = Some ch \<longrightarrow>
      environ ''LIMIT'' = Some s \<longrightarrow> py_int py s = Some limit \<longrightarrow>
        execute_job py environ form api =
          map_option (\<lambda>x. (fst x, f_close (snd x)))
            (fetch_loop py api limit ch at (JNull, 0, new_world)))"
proof -
  let ?w1 = "f_flush (fold f_write (map csv_record cs)
        (w\<lparr>trace := trace w @ [Request (commentThreads_request tok ch at)]\<rparr>))"
  have lc: "list_comments py api tok ch at w = (Inr \<lparr>token = t, count = int (length cs)\<rparr>, ?w1)"
    using assms by (rule list_comments_page)
  have lb: "loop_body py api limit ch at (tok, total_count, w) =
       (if t = JNull \<or> limit < total_count + int (length cs)
        then Inl (Inr (universal_newlines (content (fp ?w1))), snd (f_read (f_seek 0 ?w1)))
        else Inr (t, total_count + int (length cs), ?w1))"
    by (auto simp: loop_body_def lc Let_def f_read_def f_seek_def)
  have fl: "fetch_loop py api limit ch at (tok, total_count, w) =
       (if t = JNull \<or> limit < total_count + int (length cs)
        then Some (Inr (universal_newlines (content (fp ?w1))), snd (f_read (f_seek 0 ?w1)))
        else fetch_loop py api limit ch at (t, total_count + int (length cs), ?w1))"
    by (subst fetch_loop.simps) (simp add: lb)
  from page_of_token [OF assms(2)]
  have tk: "t = JNull \<longleftrightarrow>
        (\<exists>result. parsed r = Some result \<and>
           (subscript result ''nextPageToken'' = Inl (KeyError ''nextPageToken'') \<or>
            subscript result ''nextPageToken'' = Inr JNull))"
    by (auto split: if_splits)
  from lc have 1: "fst (list_comments py api tok ch at w) = Inr \<lparr>token = t, count = int (length cs)\<rparr>"
    and 2: "snd (list_comments py api tok ch at w) = ?w1" by simp_all
  have ej: "form ''access_token'' = Some at \<longrightarrow> form ''channel_id'' = Some ch \<longrightarrow>
      environ ''LIMIT'' = Some s \<longrightarrow> py_int py s = Some limit \<longrightarrow>
        execute_job py environ form api =
          map_option (\<lambda>x. (fst x, f_close (snd x)))
            (fetch_loop py api limit ch at (JNull, 0, new_world))"
    by (simp add: execute_job_def)
  show ?thesis unfolding 2 using 1 tk lb fl ej by blast
qed

theorem loop_stops_or_goes_on_witness:
  "loop_body example_python two_pages 1 ''UC123'' ''ya29'' (JNull, 0, new_world) =
     Inr (JStr ''CDIQAA'', 1,
          snd (list_comments example_python two_pages JNull ''UC123'' ''ya29'' new_world)) \<and>
   loop_body example_python two_pages 0 ''UC123'' ''ya29'' (JNull, 0, new_world) =
     Inl (Inr (universal_newlines (content (fp
            (snd (list_comments example_python two_pages JNull ''UC123'' ''ya29'' new_world))))),
          snd (f_read (f_seek 0
            (snd (list_comments example_python two_pages JNull ''UC123'' ''ya29'' new_world))))) \<and>
   execute_job example_python [''LIMIT'' \<mapsto> ''1''] example_form two_pages =
     map_option (\<lambda>x. (fst x, f_close (snd x)))
       (fetch_loop example_python two_pages 1 ''UC123'' ''ya29'' (JNull, 0, new_world))"
proof -
  have 1: "two_pages (length (requests_of (trace new_world))) =
      Some (page_response (Some ''CDIQAA'')
          [comment_item ''2023-01-07T10:00:00Z'' ''alice'' (''one'' @ [CR, LF] @ ''two'')])"
    by (simp add: new_world_def page_at_two_pages_0)
  have l: "[''LIMIT'' \<mapsto> ''1''] ''LIMIT'' = Some ''1''" by simp
  from loop_stops_or_goes_on [where api = two_pages and w = new_world and tok = JNull
        and ch = "''UC123''" and at = "''ya29''" and limit = 1 and total_count = 0
        and form = example_form and environ = "[''LIMIT'' \<mapsto> ''1'']" and s = "''1''",
        OF 1 page_of_two_pages_0]
    loop_stops_or_goes_on [where api = two_pages and w = new_world and tok = JNull
        and ch = "''UC123''" and at = "''ya29''" and limit = 0 and total_count = 0,
        OF 1 page_of_two_pages_0]
    l example_inputs(1,2,4)
  show ?thesis by simp
qed

section \<open>The requests of a job\<close>

lemma continues_token:
  assumes "continues py api limit k"
  shows "token_at py api k \<noteq> JNull \<and>
    (\<exists>r result. api k = Some r \<and> status_code r = 200 \<and> parsed r = Some result \<and>
        subscript result ''nextPageToken'' = Inr (token_at py api k))"
proof -
  from assms have t: "token_at py api k \<noteq> JNull" by (simp add: continues_def)
  from assms obtain r cs where r: "api k = Some r"
    and p: "page_of py r = Some (token_at py api k, cs)"
    by (auto simp: continues_def page_at_def token_at_def split: option.splits)
  from p have "status_code r = 200" by (auto simp: page_of_def split: if_splits)
  with page_of_token [OF p] t r show ?thesis by auto
qed

lemma request_at_0: "map_of (params (request_at py api ch at 0)) ''pageToken'' = None"
  by (simp add: request_at_def token_before_def commentThreads_request_def)

lemma request_at_Suc:
  "token_at py api k \<noteq> JNull \<Longrightarrow>
   map_of (params (request_at py api ch at (Suc k))) ''pageToken'' = Some (token_at py api k)"
  by (simp add: request_at_def token_before_def commentThreads_request_def)

lemma requests_of_loop_body:
  "requests_of (trace (world_of (loop_body py api limit ch at (state_after py api ch at n)))) =
   map (request_at py api ch at) [0..<Suc n]"
proof (cases "continues py api limit n")
  case True
  have "world_of (loop_body py api limit ch at (state_after py api ch at n)) =
        snd (snd (state_after py api ch at (Suc n)))"
    by (simp add: loop_body_continue [OF True] world_of_def)
  then show ?thesis
    by (simp add: state_after_def requests_of_trace_after del: upt_Suc)
next
  case False
  show ?thesis
  proof (cases "page_at py api n")
    case None
    from loop_body_raises [OF this, of limit ch at] show ?thesis
      by (auto simp: world_of_def trace_fold_f_write requests_of_append requests_of_Write
          requests_of_trace_after)
  next
    case (Some p)
    then have "page_at py api n = Some (fst p, snd p)" by simp
    from loop_body_stop [OF this False, of ch at] show ?thesis
      by (simp add: world_of_def requests_of_append requests_of_trace_after del: upt_Suc)
  qed
qed

lemma continues_two_pages_0: "continues example_python two_pages 1 0"
  by (simp add: example_simps two_pages_def)

lemma token_at_two_pages_0: "token_at example_python two_pages 0 = JStr ''CDIQAA''"
  by (simp add: example_simps two_pages_def)

text \<open>
  Claim C4. Each pass of the loop fetches one page. When the loop of a job has made
  \<open>n\<close> passes and goes on, the job has issued \<open>n + 1\<close> requests by the end of the
  next pass, however that pass ends: one for each pass. The first of them carries no
  \<^verbatim>\<open>pageToken\<close>, and each later one carries as its \<^verbatim>\<open>pageToken\<close> the value under
  \<^verbatim>\<open>nextPageToken\<close> in the body of the response to the request before it.
\<close>

theorem one_request_per_pass:
  assumes "passes n (loop_body py api limit ch at) (JNull, 0, new_world) = Inr st"
  shows "requests_of (trace (world_of (loop_body py api limit ch at st))) =
           map (request_at py api ch at) [0..<Suc n] \<and>
         map_of (params (request_at py api ch at 0)) ''pageToken'' = None \<and>
         (\<forall>k<n. map_of (params (request_at py api ch at (Suc k))) ''pageToken'' =
                   Some (token_at py api k) \<and>
                 (\<exists>r result. api k = Some r \<and> status_code r = 200 \<and> parsed r = Some result \<and>
                    subscript result ''nextPageToken'' = Inr (token_at py api k)))"
proof -
  from passes_Inr [OF assms] have c: "\<forall>k<n. continues py api limit k"
    and st: "st = state_after py api ch at n" by simp_all
  have "\<forall>k<n. map_of (params (request_at py api ch at (Suc k))) ''pageToken'' =
                   Some (token_at py api k) \<and>
                 (\<exists>r result. api k = Some r \<and> status_code r = 200 \<and> parsed r = Some result \<and>
                    subscript result ''nextPageToken'' = Inr (token_at py api k))"
  proof (intro allI impI)
    fix k assume "k < n"
    with c have "continues py api limit k" by simp
    from continues_token [OF this] show "map_of (params (request_at py api ch at (Suc k))) ''pageToken'' =
                   Some (token_at py api k) \<and>
                 (\<exists>r result. api k = Some r \<and> status_code r = 200 \<and> parsed r = Some result \<and>
                    subscript result ''nextPageToken'' = Inr (token_at py api k))"
      by (simp add: request_at_Suc)
  qed
  then show ?thesis
    unfolding st using requests_of_loop_body [of py api limit ch at n] request_at_0 [of py api ch at]
    by blast
qed

theorem one_request_per_pass_witness:
  "requests_of (trace (world_of (loop_body example_python two_pages 1 ''UC123'' ''ya29''
       (state_after example_python two_pages ''UC123'' ''ya29'' 1)))) =
     [request_at example_python two_pages ''UC123'' ''ya29'' 0,
      request_at example_python two_pages ''UC123'' ''ya29'' 1] \<and>
   map_of (params (request_at example_python two_pages ''UC123'' ''ya29'' 0)) ''pageToken'' = None \<and>
   map_of (params (request_at example_python two_pages ''UC123'' ''ya29'' 1)) ''pageToken'' =
     Some (JStr ''CDIQAA'')"
proof -
  have "\<forall>k<1. continues example_python two_pages 1 k"
    using continues_two_pages_0 by simp
  then have "passes 1 (loop_body example_python two_pages 1 ''UC123'' ''ya29'') (JNull, 0, new_world) =
     Inr (state_after example_python two_pages ''UC123'' ''ya29'' 1)"
    by (rule passes_continue)
  from one_request_per_pass [OF this] show ?thesis
    by (simp add: token_at_two_pages_0)
qed

section \<open>The scratch file\<close>

lemma list_comments_Inr:
  assumes "list_comments py api tok ch at w = (Inr nt, w1)"
  shows "\<exists>r cs. api (length (requests_of (trace w))) = Some r \<and>
           page_of py r = Some (token nt, cs) \<and> count nt = int (length cs) \<and>
           w1 = f_flush (fold f_write (map csv_record cs)
                  (w\<lparr>trace := trace w @ [Request (commentThreads_request tok ch at)]\<rparr>))"
proof (cases "api (length (requests_of (trace w)))")
  case None
  with list_comments_no_response [of api w py tok ch at] assms show ?thesis by simp
next
  case (Some r)
  show ?thesis
  proof (cases "page_of py r")
    case None
    with list_comments_not_page [of api w r py tok ch at] \<open>api (length (requests_of (trace w))) = Some r\<close> assms
    show ?thesis by auto
  next
    case (Some p)
    obtain t cs where tc: "p = (t, cs)" by (cases p)
    with Some have p: "page_of py r = Some (t, cs)" by simp
    from list_comments_page [of api w r py t cs tok ch at]
      assms p \<open>api (length (requests_of (trace w))) = Some r\<close>
    show ?thesis by auto
  qed
qed

lemma Read_notin_Write: "Read \<notin> set (map Write ls)"
  by (induction ls) simp_all

lemma Read_notin_pass_events: "Read \<notin> set (pass_events py api ch at k)"
  by (auto simp: pass_events_def)

lemma Read_notin_trace_after: "Read \<notin> set (trace_after py api ch at n)"
  by (induction n) (simp_all add: trace_after_Suc Read_notin_pass_events, simp add: trace_after_def)

lemma returns_after_two_pages: "returns_after example_python two_pages 1 1"
  by (simp add: returns_after_def example_simps two_pages_def)

lemma execute_job_two_pages:
  "execute_job example_python [''LIMIT'' \<mapsto> ''1''] example_form two_pages =
     Some (Inr (universal_newlines (text_after example_python two_pages 2)),
           \<lparr>trace = trace_after example_python two_pages ''UC123'' ''ya29'' 2 @ [Seek 0, Read, Close],
            fp = \<lparr>content = text_after example_python two_pages 2,
                  pos = length (text_after example_python two_pages 2), dirty = False\<rparr>\<rparr>)"
  using fetch_loop_returns [OF returns_after_two_pages, of "''UC123''" "''ya29''"]
  by (simp add: execute_job_def example_inputs f_close_def numeral_2_eq_2)

text \<open>
  Claim C6. Writing to the scratch file is incremental and append-only. A call of
  \<open>list_comments\<close> that returns, made with the position at the end of the file,
  leaves the earlier content as it is and puts the records of its page after it, with
  one write for each comment and then a flush before it returns, so that no written
  text waits in the buffer. At the start of every pass of the loop of a job the
  position is at the end of the file and the file has not been read. A job that
  returns has read the file once, from its start, as its last operation before
  closing it, and returns what it read; a job that raises has not read the file.
\<close>

theorem scratch_file_append_only:
  "(pos (fp w) = length (content (fp w)) \<longrightarrow>
    list_comments py api tok ch at w = (Inr nt, w_next) \<longrightarrow>
      (\<exists>r cs. api (length (requests_of (trace w))) = Some r \<and>
         page_of py r = Some (token nt, cs) \<and>
         content (fp w_next) = content (fp w) @ concat (map csv_record cs) \<and>
         pos (fp w_next) = length (content (fp w_next)) \<and> \<not> dirty (fp w_next) \<and>
         trace w_next = trace w @ Request (commentThreads_request tok ch at)
                      # map Write (map csv_record cs) @ [Flush])) \<and>
   (passes n (loop_body py api limit ch at) (JNull, 0, new_world) = Inr (tok', total_count, w') \<longrightarrow>
      pos (fp w') = length (content (fp w')) \<and> Read \<notin> set (trace w')) \<and>
   (form ''access_token'' = Some at \<longrightarrow> form ''channel_id'' = Some ch \<longrightarrow>
    environ ''LIMIT'' = Some s \<longrightarrow> py_int py s = Some limit \<longrightarrow>
    execute_job py environ form api = Some (out, w'') \<longrightarrow>
      (case out of
         Inl e \<Rightarrow> Read \<notin> set (trace w'')
       | Inr csv \<Rightarrow> (\<exists>es. trace w'' = es @ [Seek 0, Read, Close] \<and> Read \<notin> set es) \<and>
                   csv = universal_newlines (content (fp w''))))"
proof (intro conjI impI)
  assume e: "pos (fp w) = length (content (fp w))"
    and lc: "list_comments py api tok ch at w = (Inr nt, w_next)"
  let ?w0 = "w\<lparr>trace := trace w @ [Request (commentThreads_request tok ch at)]\<rparr>"
  from list_comments_Inr [OF lc] obtain r cs where r: "api (length (requests_of (trace w))) = Some r"
    and p: "page_of py r = Some (token nt, cs)"
    and w_next: "w_next = f_flush (fold f_write (map csv_record cs) ?w0)"
    by blast
  from e have "pos (fp ?w0) = length (content (fp ?w0))" by simp
  from fp_fold_f_write [OF this, of "map csv_record cs"] w_next
  have "content (fp w_next) = content (fp w) @ concat (map csv_record cs) \<and>
         pos (fp w_next) = length (content (fp w_next)) \<and> \<not> dirty (fp w_next)"
    by (simp add: f_flush_def)
  moreover from w_next have "trace w_next = trace w @ Request (commentThreads_request tok ch at)
                      # map Write (map csv_record cs) @ [Flush]"
    by (simp add: f_flush_def trace_fold_f_write)
  ultimately show "\<exists>r cs. api (length (requests_of (trace w))) = Some r \<and>
         page_of py r = Some (token nt, cs) \<and>
         content (fp w_next) = content (fp w) @ concat (map csv_record cs) \<and>
         pos (fp w_next) = length (content (fp w_next)) \<and> \<not> dirty (fp w_next) \<and>
         trace w_next = trace w @ Request (commentThreads_request tok ch at)
                      # map Write (map csv_record cs) @ [Flush]"
    using r p by blast
next
  assume "passes n (loop_body py api limit ch at) (JNull, 0, new_world) = Inr (tok', total_count, w')"
  from passes_Inr [OF this] have st: "(tok', total_count, w') = state_after py api ch at n" by simp
  then show "pos (fp w') = length (content (fp w'))" by (simp add: state_after_def)
  from st show "Read \<notin> set (trace w')" by (simp add: state_after_def Read_notin_trace_after)
next
  assume inputs: "form ''access_token'' = Some at" "form ''channel_id'' = Some ch"
    "environ ''LIMIT'' = Some s" "py_int py s = Some limit"
    and ex: "execute_job py environ form api = Some (out, w'')"
  from inputs ex obtain w0 where fl: "fetch_loop py api limit ch at (JNull, 0, new_world) = Some (out, w0)"
    and w'': "w'' = f_close w0"
    by (auto simp: execute_job_def)
  show "case out of
         Inl e \<Rightarrow> Read \<notin> set (trace w'')
       | Inr csv \<Rightarrow> (\<exists>es. trace w'' = es @ [Seek 0, Read, Close] \<and> Read \<notin> set es) \<and>
                   csv = universal_newlines (content (fp w''))"
  proof (cases out)
    case (Inl e)
    with fl have "fetch_loop py api limit ch at (JNull, 0, new_world) = Some (Inl e, w0)" by simp
    from fetch_loop_raised [OF this] obtain m ls where
      "w0 = fold f_write ls
              \<lparr>trace = trace_after py api ch at m @ [Request (request_at py api ch at m)],
               fp = \<lparr>content = text_after py api m,
                     pos = length (text_after py api m), dirty = False\<rparr>\<rparr>"
      by blast
    with w'' have "Read \<notin> set (trace w'')"
      by (auto simp: f_close_def trace_fold_f_write Read_notin_trace_after)
    with Inl show ?thesis by simp
  next
    case (Inr csv)
    with fl have "fetch_loop py api limit ch at (JNull, 0, new_world) = Some (Inr csv, w0)" by simp
    from fetch_loop_returned [OF this] obtain m where
      csv: "csv = universal_newlines (text_after py api (Suc m))"
      and w0: "w0 = \<lparr>trace = trace_after py api ch at (Suc m) @ [Seek 0, Read],
                  fp = \<lparr>content = text_after py api (Suc m),
                        pos = length (text_after py api (Suc m)), dirty = False\<rparr>\<rparr>"
      by blast
    from w0 w'' have "trace w'' = trace_after py api ch at (Suc m) @ [Seek 0, Read, Close]"
      by (simp add: f_close_def)
    with Read_notin_trace_after [of py api ch at "Suc m"]
    have "\<exists>es. trace w'' = es @ [Seek 0, Read, Close] \<and> Read \<notin> set es" by blast
    moreover from csv w0 w'' have "csv = universal_newlines (content (fp w''))"
      by (simp add: f_close_def)
    ultimately show ?thesis using Inr by simp
  qed
qed

theorem scratch_file_append_only_witness:
  "(\<exists>r cs. two_pages 0 = Some r \<and> page_of example_python r = Some (JStr ''CDIQAA'', cs) \<and>
      content (fp (snd (list_comments example_python two_pages JNull ''UC123'' ''ya29'' new_world))) =
        concat (map csv_record cs) \<and>
      \<not> dirty (fp (snd (list_comments example_python two_pages JNull ''UC123'' ''ya29'' new_world)))) \<and>
   pos (fp (snd (snd (state_after example_python two_pages ''UC123'' ''ya29'' 1)))) =
     length (content (fp (snd (snd (state_after example_python two_pages ''UC123'' ''ya29'' 1))))) \<and>
   (\<exists>es. trace (snd (the (execute_job example_python [''LIMIT'' \<mapsto> ''1''] example_form two_pages))) =
            es @ [Seek 0, Read, Close] \<and> Read \<notin> set es)"
proof -
  let ?lc = "list_comments example_python two_pages JNull ''UC123'' ''ya29'' new_world"
  let ?st = "state_after example_python two_pages ''UC123'' ''ya29'' 1"
  let ?ex = "execute_job example_python [''LIMIT'' \<mapsto> ''1''] example_form two_pages"
  have a1: "pos (fp new_world) = length (content (fp new_world))"
    by (simp add: new_world_def)
  have "two_pages (length (requests_of (trace new_world))) =
      Some (page_response (Some ''CDIQAA'')
          [comment_item ''2023-01-07T10:00:00Z'' ''alice'' (''one'' @ [CR, LF] @ ''two'')])"
    by (simp add: new_world_def page_at_two_pages_0)
  from list_comments_page [where api = two_pages and w = new_world, OF this page_of_two_pages_0]
  have a2: "?lc = (Inr \<lparr>token = JStr ''CDIQAA'', count = 1\<rparr>, snd ?lc)"
    by simp
  have "\<forall>k<1. continues example_python two_pages 1 k"
    using continues_two_pages_0 by simp
  then have "passes 1 (loop_body example_python two_pages 1 ''UC123'' ''ya29'') (JNull, 0, new_world) =
     Inr ?st"
    by (rule passes_continue)
  then have b: "passes 1 (loop_body example_python two_pages 1 ''UC123'' ''ya29'') (JNull, 0, new_world) =
     Inr (fst ?st, fst (snd ?st), snd (snd ?st))"
    by simp
  have c: "?ex = Some (Inr (universal_newlines (text_after example_python two_pages 2)), snd (the ?ex))"
    by (simp add: execute_job_two_pages)
  have l: "[''LIMIT'' \<mapsto> ''1''] ''LIMIT'' = Some ''1''" by simp
  note T = scratch_file_append_only [where w = new_world and py = example_python and api = two_pages
      and tok = JNull and ch = "''UC123''" and at = "''ya29''" and w_next = "snd ?lc"
      and nt = "\<lparr>token = JStr ''CDIQAA'', count = 1\<rparr>" and n = 1 and limit = 1
      and tok' = "fst ?st" and total_count = "fst (snd ?st)" and w' = "snd (snd ?st)"
      and form = example_form and environ = "[''LIMIT'' \<mapsto> ''1'']" and s = "''1''"
      and out = "Inr (universal_newlines (text_after example_python two_pages 2))"
      and w'' = "snd (the ?ex)"]
  from T a1 a2 have "\<exists>r cs. two_pages (length (requests_of (trace new_world))) = Some r \<and>
      page_of example_python r = Some (token \<lparr>token = JStr ''CDIQAA'', count = 1\<rparr>, cs) \<and>
      content (fp (snd ?lc)) = content (fp new_world) @ concat (map csv_record cs) \<and>
      pos (fp (snd ?lc)) = length (content (fp (snd ?lc))) \<and> \<not> dirty (fp (snd ?lc)) \<and>
      trace (snd ?lc) = trace new_world @ Request (commentThreads_request JNull ''UC123'' ''ya29'')
                      # map Write (map csv_record cs) @ [Flush]"
    by blast
  then have A: "\<exists>r cs. two_pages 0 = Some r \<and> page_of example_python r = Some (JStr ''CDIQAA'', cs) \<and>
      content (fp (snd ?lc)) = concat (map csv_record cs) \<and> \<not> dirty (fp (snd ?lc))"
    by (auto simp: new_world_def)
  from T b have B: "pos (fp (snd (snd ?st))) = length (content (fp (snd (snd ?st))))"
    by blast
  from T c l example_inputs(1,2,4)
  have "case Inr (universal_newlines (text_after example_python two_pages 2)) :: error + string of
         Inl e \<Rightarrow> Read \<notin> set (trace (snd (the ?ex)))
       | Inr csv \<Rightarrow> (\<exists>es. trace (snd (the ?ex)) = es @ [Seek 0, Read, Close] \<and> Read \<notin> set es) \<and>
                   csv = universal_newlines (content (fp (snd (the ?ex))))"
    by blast
  then have C: "\<exists>es. trace (snd (the ?ex)) = es @ [Seek 0, Read, Close] \<and> Read \<notin> set es"
    by simp
  from A B C show ?thesis by blast
qed

section \<open>The text that a job returns\<close>

lemma universal_newlines_id: "CR \<notin> set s \<Longrightarrow> universal_newlines s = s"
  by (induction s rule: universal_newlines.induct) auto

lemma CR_notin_transformed: "CR \<notin> set (transformed t)"
  by (auto simp: transformed_def replace_def CR_def BACKSLASH_def)


lemma CR_notin_csv_record:
  "CR \<notin> set (publishedAt c) \<Longrightarrow> CR \<notin> set (authorDisplayName c) \<Longrightarrow> CR \<notin> set (csv_record c)"
  using CR_notin_transformed [of "textOriginal c"]
  by (simp add: csv_record_def RECORD_FORMAT_def) (simp add: CR_def DQUOTE_def LF_def)

lemma comments_of_map:
  "comments_of py items = Some cs \<Longrightarrow> map (comment_of py) items = map Some cs"
  by (induction items arbitrary: cs) (auto split: option.splits)

lemma page_at_items:
  assumes "page_at py api k = Some (t, cs)"
  shows "\<exists>r result its items. api k = Some r \<and> status_code r = 200 \<and> parsed r = Some result \<and>
           subscript result ''items'' = Inr its \<and> iterate its = Inr items \<and>
           map (comment_of py) items = map Some cs"
  using assms
  by (auto simp: page_at_def page_of_def comments_of_map
      split: option.splits if_splits sum.splits)

lemma execute_job_returned:
  assumes "form ''access_token'' = Some at" and "form ''channel_id'' = Some ch"
    and "environ ''LIMIT'' = Some s" and "py_int py s = Some limit"
  shows "(\<exists>w. execute_job py environ form api = Some (Inr csv, w) \<and>
               length (requests_of (trace w)) = Suc n) \<longleftrightarrow>
         returns_after py api limit n \<and> csv = universal_newlines (text_after py api (Suc n))"
proof
  assume "\<exists>w. execute_job py environ form api = Some (Inr csv, w) \<and>
               length (requests_of (trace w)) = Suc n"
  then obtain w where ex: "execute_job py environ form api = Some (Inr csv, w)"
    and len: "length (requests_of (trace w)) = Suc n" by blast
  from ex assms obtain w0 where fl: "fetch_loop py api limit ch at (JNull, 0, new_world) = Some (Inr csv, w0)"
    and w: "w = f_close w0"
    by (auto simp: execute_job_def)
  from fetch_loop_returned [OF fl] obtain m where r: "returns_after py api limit m"
    and csv: "csv = universal_newlines (text_after py api (Suc m))"
    and w0: "w0 = \<lparr>trace = trace_after py api ch at (Suc m) @ [Seek 0, Read],
                  fp = \<lparr>content = text_after py api (Suc m),
                        pos = length (text_after py api (Suc m)), dirty = False\<rparr>\<rparr>"
    by blast
  from w w0 have "length (requests_of (trace w)) = Suc m"
    by (simp add: f_close_def requests_of_append requests_of_trace_after del: upt_Suc)
  with len have "m = n" by simp
  with r csv show "returns_after py api limit n \<and> csv = universal_newlines (text_after py api (Suc n))"
    by simp
next
  assume "returns_after py api limit n \<and> csv = universal_newlines (text_after py api (Suc n))"
  then have r: "returns_after py api limit n"
    and csv: "csv = universal_newlines (text_after py api (Suc n))" by simp_all
  let ?w = "\<lparr>trace = trace_after py api ch at (Suc n) @ [Seek 0, Read, Close],
            fp = \<lparr>content = text_after py api (Suc n),
                  pos = length (text_after py api (Suc n)), dirty = False\<rparr>\<rparr>"
  from fetch_loop_returns [OF r, of ch at] assms csv
  have "execute_job py environ form api = Some (Inr csv, ?w)"
    by (simp add: execute_job_def f_close_def)
  moreover have "length (requests_of (trace ?w)) = Suc n"
    by (simp add: requests_of_append requests_of_trace_after del: upt_Suc)
  ultimately show "\<exists>w. execute_job py environ form api = Some (Inr csv, w) \<and>
               length (requests_of (trace w)) = Suc n" by blast
qed

lemma CR_notin_universal_newlines: "CR \<notin> set (universal_newlines s)"
  by (induction s rule: universal_newlines.induct) (auto simp: CR_def LF_def)

lemma fetched_two_pages:
  "fetched example_python two_pages (Suc (Suc 0)) =
    [\<lparr>publishedAt = ''2023-01-07T10:00:00Z'', authorDisplayName = ''alice'',
      textOriginal = ''one'' @ [CR, LF] @ ''two''\<rparr>,
     \<lparr>publishedAt = ''2023-01-07T11:00:00Z'', authorDisplayName = ''bob'',
      textOriginal = ''three''\<rparr>,
     \<lparr>publishedAt = ''2023-01-07T12:00:00Z'', authorDisplayName = ''carol'',
      textOriginal = ''four''\<rparr>]"
  by (simp add: example_simps two_pages_def)

lemma returns_after_author_with_cr: "returns_after example_python author_with_cr 1 0"
  by (simp add: returns_after_def example_simps author_with_cr_def)

lemma fetched_author_with_cr:
  "fetched example_python author_with_cr 1 =
     [\<lparr>publishedAt = ''2023-01-07T10:00:00Z'', authorDisplayName = ''al'' @ [CR] @ ''ice'',
       textOriginal = ''one''\<rparr>]"
  by (simp add: example_simps author_with_cr_def)

text \<open>
  Claim C1, as the code has it. A job with an access token, a channel and an integer
  limit returns a text after \<open>n + 1\<close> requests exactly when the loop goes on after
  each of the first \<open>n\<close> responses and stops after the next one; all these responses
  then have status 200 and are pages, with one comment for each of their items. The
  text is the concatenation, in the order of fetching, of one record for each of these
  comments: its \<^verbatim>\<open>publishedAt\<close>, its \<^verbatim>\<open>authorDisplayName\<close> and its transformed
  \<^verbatim>\<open>textOriginal\<close>, each in double quotes, with commas between them and a newline at
  the end, as the text-mode scratch file gives it back: with every CR LF pair and
  every other CR turned into LF. It is the concatenation itself when no
  \<^verbatim>\<open>publishedAt\<close> and no \<^verbatim>\<open>authorDisplayName\<close> has a carriage return in it.
\<close>

theorem returned_csv:
  assumes "form ''access_token'' = Some at" and "form ''channel_id'' = Some ch"
    and "environ ''LIMIT'' = Some s" and "py_int py s = Some limit"
  shows "((\<exists>w. execute_job py environ form api = Some (Inr csv, w) \<and>
               length (requests_of (trace w)) = Suc n) \<longleftrightarrow>
          returns_after py api limit n \<and>
          csv = universal_newlines (concat (map csv_record (fetched py api (Suc n))))) \<and>
         (returns_after py api limit n \<longrightarrow>
            (\<forall>k\<le>n. \<exists>r result its items.
               api k = Some r \<and> status_code r = 200 \<and> parsed r = Some result \<and>
               subscript result ''items'' = Inr its \<and> iterate its = Inr items \<and>
               map (comment_of py) items = map Some (comments_at py api k))) \<and>
         ((\<forall>c\<in>set (fetched py api (Suc n)).
              CR \<notin> set (publishedAt c) \<and> CR \<notin> set (authorDisplayName c)) \<longrightarrow>
            universal_newlines (concat (map csv_record (fetched py api (Suc n)))) =
              concat (map csv_record (fetched py api (Suc n))))"
proof (intro conjI impI)
  show "(\<exists>w. execute_job py environ form api = Some (Inr csv, w) \<and>
               length (requests_of (trace w)) = Suc n) \<longleftrightarrow>
          returns_after py api limit n \<and>
          csv = universal_newlines (concat (map csv_record (fetched py api (Suc n))))"
    using execute_job_returned [where form = form and environ = environ, OF assms, of api csv n]
    by (simp only: text_after_def)
next
  assume r: "returns_after py api limit n"
  show "\<forall>k\<le>n. \<exists>r result its items.
               api k = Some r \<and> status_code r = 200 \<and> parsed r = Some result \<and>
               subscript result ''items'' = Inr its \<and> iterate its = Inr items \<and>
               map (comment_of py) items = map Some (comments_at py api k)"
  proof (intro allI impI)
    fix k assume "k \<le> n"
    with r have "page_at py api k \<noteq> None"
      by (cases "k = n") (auto simp: returns_after_def continues_def)
    then obtain t cs where p: "page_at py api k = Some (t, cs)" by auto
    then have "comments_at py api k = cs" by (simp add: comments_at_def)
    with page_at_items [OF p]
    show "\<exists>r result its items.
               api k = Some r \<and> status_code r = 200 \<and> parsed r = Some result \<and>
               subscript result ''items'' = Inr its \<and> iterate its = Inr items \<and>
               map (comment_of py) items = map Some (comments_at py api k)"
      by simp
  qed
next
  assume "\<forall>c\<in>set (fetched py api (Suc n)).
              CR \<notin> set (publishedAt c) \<and> CR \<notin> set (authorDisplayName c)"
  then have "CR \<notin> set (concat (map csv_record (fetched py api (Suc n))))"
    by (auto dest: CR_notin_csv_record)
  then show "universal_newlines (concat (map csv_record (fetched py api (Suc n)))) =
              concat (map csv_record (fetched py api (Suc n)))"
    by (rule universal_newlines_id)
qed

theorem returned_csv_witness:
  "(\<exists>w. execute_job example_python [''LIMIT'' \<mapsto> ''1''] example_form two_pages =
          Some (Inr (concat (map csv_record (fetched example_python two_pages 2))), w) \<and>
        length (requests_of (trace w)) = 2) \<and>
   length (fetched example_python two_pages 2) = 3"
proof -
  let ?csv = "concat (map csv_record (fetched example_python two_pages 2))"
  have l: "[''LIMIT'' \<mapsto> ''1''] ''LIMIT'' = Some ''1''" by simp
  note T = returned_csv [where form = example_form and environ = "[''LIMIT'' \<mapsto> ''1'']"
      and api = two_pages and n = 1 and csv = ?csv,
      OF example_inputs(1) example_inputs(2) l example_inputs(4)]
  have "\<forall>c\<in>set (fetched example_python two_pages (Suc 1)).
          CR \<notin> set (publishedAt c) \<and> CR \<notin> set (authorDisplayName c)"
    by (simp add: fetched_two_pages CR_def)
  with T have "universal_newlines (concat (map csv_record (fetched example_python two_pages (Suc 1)))) =
     concat (map csv_record (fetched example_python two_pages (Suc 1)))"
    by blast
  then have "returns_after example_python two_pages 1 1 \<and>
     ?csv = universal_newlines (concat (map csv_record (fetched example_python two_pages (Suc 1))))"
    using returns_after_two_pages by (simp add: numeral_2_eq_2)
  with T have "\<exists>w. execute_job example_python [''LIMIT'' \<mapsto> ''1''] example_form two_pages =
          Some (Inr ?csv, w) \<and> length (requests_of (trace w)) = Suc 1"
    by blast
  then show ?thesis by (simp add: fetched_two_pages numeral_2_eq_2)
qed

text \<open>
  The claim as it was stated fails for a comment whose author's name has a carriage
  return in it: the job returns the record with a line feed in its place.
\<close>

theorem returned_csv_counterexample:
  "map_option fst (execute_job example_python [''LIMIT'' \<mapsto> ''1''] example_form author_with_cr) =
     Some (Inr (universal_newlines (concat (map csv_record (fetched example_python author_with_cr 1))))) \<and>
   universal_newlines (concat (map csv_record (fetched example_python author_with_cr 1))) \<noteq>
     concat (map csv_record (fetched example_python author_with_cr 1))"
proof
  show "map_option fst (execute_job example_python [''LIMIT'' \<mapsto> ''1''] example_form author_with_cr) =
     Some (Inr (universal_newlines (concat (map csv_record (fetched example_python author_with_cr 1)))))"
    using fetch_loop_returns [OF returns_after_author_with_cr, of "''UC123''" "''ya29''"]
    by (simp add: execute_job_def example_inputs text_after_def)
next
  have "CR \<in> set (concat (map csv_record (fetched example_python author_with_cr 1)))"
    by (simp only: fetched_author_with_cr) (simp add: csv_record_def RECORD_FORMAT_def)
  then show "universal_newlines (concat (map csv_record (fetched example_python author_with_cr 1))) \<noteq>
     concat (map csv_record (fetched example_python author_with_cr 1))"
    using CR_notin_universal_newlines
      [of "concat (map csv_record (fetched example_python author_with_cr 1))"]
    by auto
qed

section \<open>The limit and the number of records\<close>

lemma execute_job_Inr:
  assumes "form ''access_token'' = Some at" and "form ''channel_id'' = Some ch"
    and "environ ''LIMIT'' = Some s" and "py_int py s = Some limit"
    and "execute_job py environ form api = Some (Inr csv, w)"
    and "length (requests_of (trace w)) = Suc n"
  shows "returns_after py api limit n"
    and "csv = universal_newlines (concat (map csv_record (fetched py api (Suc n))))"
  using execute_job_returned [where form = form and environ = environ, OF assms(1-4), of api csv n]
    assms(5,6)
  by (auto simp: text_after_def)

lemma returns_after_bound:
  assumes "returns_after py api limit n" and "0 \<le> limit"
  shows "int (length (fetched py api (Suc n))) \<le> limit + int (length (comments_at py api n))"
proof (cases n)
  case 0
  with assms(2) show ?thesis by (simp add: fetched_def)
next
  case (Suc m)
  with assms(1) have "continues py api limit m" by (simp add: returns_after_def)
  then have "int (length (fetched py api n)) \<le> limit" using Suc by (simp add: continues_def)
  then show ?thesis by (simp add: fetched_Suc)
qed

lemma comment_of_comment_item:
  "comment_of py (comment_item p a t) =
     Some \<lparr>publishedAt = p, authorDisplayName = a, textOriginal = t\<rparr>"
  by (simp add: comment_of_def snippet_of_def comment_item_def format_field_def)

lemma comments_of_replicate:
  "comments_of py (replicate m (comment_item p a t)) =
     Some (replicate m \<lparr>publishedAt = p, authorDisplayName = a, textOriginal = t\<rparr>)"
  by (induction m) (simp_all add: comment_of_comment_item)

lemma page_of_page_response_None:
  "comments_of py items = Some cs \<Longrightarrow> page_of py (page_response None items) = Some (JNull, cs)"
  by (simp add: page_of_def page_response_def next_page_token_of_def)

lemma returns_after_no_comments: "returns_after example_python no_comments (- 1) 0"
  by (simp add: returns_after_def example_simps no_comments_def)

lemma fetched_no_comments: "fetched example_python no_comments (Suc 0) = []"
  by (simp add: example_simps no_comments_def)

lemma requests_of_two_pages:
  "length (requests_of (trace_after example_python two_pages ''UC123'' ''ya29'' 2 @ [Seek 0, Read, Close])) = Suc 1"
  by (simp add: requests_of_append requests_of_trace_after)

text \<open>
  Claim C7, as the code has it. The limit does not cap the size of the output: for
  every limit there are responses for which the job returns more records than the
  limit, because the limit is compared with the count only after a whole page has
  been written. When the limit is not negative, the number of records that a job
  returns is at most the limit plus the number of comments of the last page fetched.
\<close>

theorem limit_is_not_a_cap:
  assumes "form ''access_token'' = Some at" and "form ''channel_id'' = Some ch"
    and "environ ''LIMIT'' = Some s" and "py_int py s = Some limit"
  shows "(\<exists>api csv w. execute_job py environ form api = Some (Inr csv, w) \<and>
            length (requests_of (trace w)) = 1 \<and>
            csv = universal_newlines (concat (map csv_record (fetched py api 1))) \<and>
            limit < int (length (fetched py api 1))) \<and>
         (0 \<le> limit \<longrightarrow> execute_job py environ form api = Some (Inr csv, w) \<longrightarrow>
          length (requests_of (trace w)) = Suc n \<longrightarrow>
            csv = universal_newlines (concat (map csv_record (fetched py api (Suc n)))) \<and>
            int (length (fetched py api (Suc n))) \<le> limit + int (length (comments_at py api n)))"
proof (intro conjI impI)
  let ?m = "nat limit + 1"
  let ?c = "\<lparr>publishedAt = [], authorDisplayName = [], textOriginal = []\<rparr>"
  let ?api = "\<lambda>k::nat. Some (page_response None (replicate ?m (comment_item [] [] [])))"
  have p: "page_at py ?api 0 = Some (JNull, replicate ?m ?c)"
    by (simp add: page_at_def page_of_page_response_None comments_of_replicate del: replicate_Suc)
  then have f: "fetched py ?api 1 = replicate ?m ?c"
    by (simp add: fetched_def comments_at_def del: replicate_Suc)
  from p have "returns_after py ?api limit 0"
    by (simp add: returns_after_def continues_def token_at_def)
  with execute_job_returned [where form = form and environ = environ, OF assms,
      of ?api "universal_newlines (text_after py ?api (Suc 0))" 0]
  obtain w0 where "execute_job py environ form ?api =
       Some (Inr (universal_newlines (text_after py ?api (Suc 0))), w0)"
    and "length (requests_of (trace w0)) = Suc 0"
    by blast
  moreover have "limit < int (length (fetched py ?api 1))"
    by (simp only: f) simp
  ultimately show "\<exists>api csv w. execute_job py environ form api = Some (Inr csv, w) \<and>
            length (requests_of (trace w)) = 1 \<and>
            csv = universal_newlines (concat (map csv_record (fetched py api 1))) \<and>
            limit < int (length (fetched py api 1))"
    by (auto simp: text_after_def)
next
  assume "0 \<le> limit" and "execute_job py environ form api = Some (Inr csv, w)"
    and "length (requests_of (trace w)) = Suc n"
  with execute_job_Inr [where form = form and environ = environ, OF assms]
  have r: "returns_after py api limit n"
    and csv: "csv = universal_newlines (concat (map csv_record (fetched py api (Suc n))))"
    by blast+
  from csv show "csv = universal_newlines (concat (map csv_record (fetched py api (Suc n))))" .
  from r \<open>0 \<le> limit\<close>
  show "int (length (fetched py api (Suc n))) \<le> limit + int (length (comments_at py api n))"
    by (rule returns_after_bound)
qed

theorem limit_is_not_a_cap_witness:
  "1 < int (length (fetched example_python two_pages (Suc 1))) \<and>
   int (length (fetched example_python two_pages (Suc 1))) \<le>
     1 + int (length (comments_at example_python two_pages 1))"
proof -
  let ?csv = "universal_newlines (text_after example_python two_pages 2)"
  let ?w = "\<lparr>trace = trace_after example_python two_pages ''UC123'' ''ya29'' 2 @ [Seek 0, Read, Close],
            fp = \<lparr>content = text_after example_python two_pages 2,
                  pos = length (text_after example_python two_pages 2), dirty = False\<rparr>\<rparr>"
  have l: "[''LIMIT'' \<mapsto> ''1''] ''LIMIT'' = Some ''1''" by simp
  have len: "length (requests_of (trace ?w)) = Suc 1"
    using requests_of_two_pages by simp
  note T = limit_is_not_a_cap [where form = example_form and environ = "[''LIMIT'' \<mapsto> ''1'']"
      and api = two_pages and n = 1 and csv = ?csv and w = ?w,
      OF example_inputs(1) example_inputs(2) l example_inputs(4)]
  from T execute_job_two_pages len
  have "int (length (fetched example_python two_pages (Suc 1))) \<le>
     1 + int (length (comments_at example_python two_pages 1))"
    by simp
  moreover have "1 < int (length (fetched example_python two_pages (Suc 1)))"
    by (simp add: fetched_two_pages)
  ultimately show ?thesis by blast
qed

text \<open>
  The bound as it was stated fails for a negative limit: with \<^verbatim>\<open>LIMIT=-1\<close> and one
  page without comments the job returns no record, and 0 is more than \<open>-1 + 0\<close>.
\<close>

theorem limit_is_not_a_cap_counterexample:
  "map_option fst (execute_job example_python [''LIMIT'' \<mapsto> ''-1''] example_form no_comments) =
     Some (Inr []) \<and>
   \<not> int (length (fetched example_python no_comments 1)) \<le>
       - 1 + int (length (comments_at example_python no_comments 0))"
proof
  show "map_option fst (execute_job example_python [''LIMIT'' \<mapsto> ''-1''] example_form no_comments) =
     Some (Inr [])"
    using fetch_loop_returns [OF returns_after_no_comments, of "''UC123''" "''ya29''"]
    by (simp add: execute_job_def example_inputs text_after_def fetched_no_comments)
next
  show "\<not> int (length (fetched example_python no_comments 1)) \<le>
       - 1 + int (length (comments_at example_python no_comments 0))"
    by (simp add: fetched_no_comments) (simp add: example_simps no_comments_def)
qed

section \<open>Records and lines\<close>









section \<open>Determinism\<close>






lemma requests_of_f_close: "requests_of (trace (f_close w)) = requests_of (trace w)"
  by (simp add: f_close_def requests_of_append)



section \<open>The number of requests\<close>

lemma fetched_grows:
  assumes "\<forall>k<n. continues py api limit k"
    and "\<forall>k. token_at py api k \<noteq> JNull \<longrightarrow> comments_at py api k \<noteq> []"
  shows "n \<le> length (fetched py api n)"
  using assms(1)
proof (induction n)
  case 0
  show ?case by simp
next
  case (Suc n)
  then have "n \<le> length (fetched py api n)" and "continues py api limit n" by simp_all
  moreover from \<open>continues py api limit n\<close> assms(2) have "comments_at py api n \<noteq> []"
    by (simp add: continues_def)
  then have "0 < length (comments_at py api n)" by simp
  ultimately have "Suc n \<le> length (fetched py api n) + length (comments_at py api n)"
    by linarith
  then show ?case by (simp add: fetched_Suc)
qed

lemma continuing_passes_bounded:
  assumes "\<forall>k<n. continues py api limit k"
    and "\<forall>k. token_at py api k \<noteq> JNull \<longrightarrow> comments_at py api k \<noteq> []"
  shows "n \<le> nat limit"
proof (cases n)
  case 0
  then show ?thesis by simp
next
  case (Suc m)
  with assms(1) have "continues py api limit m" by simp
  then have "int (length (fetched py api n)) \<le> limit" using Suc by (simp add: continues_def)
  moreover from fetched_grows [OF assms] have "int n \<le> int (length (fetched py api n))" by simp
  ultimately show ?thesis by simp
qed

lemma loop_body_exit:
  assumes "\<not> continues py api limit n"
  shows "\<exists>r. loop_body py api limit ch at (state_after py api ch at n) = Inl r"
proof (cases "loop_body py api limit ch at (state_after py api ch at n)")
  case (Inl r)
  then show ?thesis by blast
next
  case (Inr st)
  from loop_body_Inr [OF this] assms show ?thesis by simp
qed

lemma fetched_empty_pages: "fetched example_python empty_pages n = []"
  by (induction n) (simp_all add: fetched_Suc, simp_all add: example_simps empty_pages_def)

lemma continues_empty_pages: "continues example_python empty_pages 0 k"
  by (simp add: continues_def fetched_empty_pages)
     (simp add: example_simps empty_pages_def)

text \<open>
  Claim C3, as the code has it. The loop is bounded by the count of records only.
  When every page that carries a next page token has at least one comment, a job
  with an access token, a channel and an integer limit ends, by returning or by
  raising, after at most \<open>limit + 1\<close> requests, and after one request when the limit
  is negative.
\<close>

theorem requests_bounded:
  assumes "form ''access_token'' = Some at" and "form ''channel_id'' = Some ch"
    and "environ ''LIMIT'' = Some s" and "py_int py s = Some limit"
    and "\<forall>k. token_at py api k \<noteq> JNull \<longrightarrow> comments_at py api k \<noteq> []"
  shows "\<exists>out w. execute_job py environ form api = Some (out, w) \<and>
           length (requests_of (trace w)) \<le> nat limit + 1"
proof -
  have "\<exists>k. \<not> continues py api limit k"
  proof (rule ccontr)
    assume "\<not> (\<exists>k. \<not> continues py api limit k)"
    then have "\<forall>k<nat limit + 1. continues py api limit k" by simp
    from continuing_passes_bounded [OF this assms(5)] show False by simp
  qed
  then obtain n where n: "\<not> continues py api limit n" and c: "\<forall>k<n. continues py api limit k"
    using exists_least_iff [of "\<lambda>k. \<not> continues py api limit k"] by auto
  from loop_body_exit [OF n, of ch at] obtain out w where
    b: "loop_body py api limit ch at (state_after py api ch at n) = Inl (out, w)" by force
  have "fetch_loop py api limit ch at (JNull, 0, new_world) =
        fetch_loop py api limit ch at (state_after py api ch at n)"
    using passes_continue [OF c] by (rule fetch_loop_passes)
  also from b have "\<dots> = Some (out, w)" by (rule fetch_loop_exit)
  finally have "execute_job py environ form api = Some (out, f_close w)"
    using assms(1-4) by (simp add: execute_job_def)
  moreover from requests_of_loop_body [of py api limit ch at n] b
  have "length (requests_of (trace (f_close w))) = Suc n"
    by (simp add: world_of_def requests_of_f_close)
  moreover from continuing_passes_bounded [OF c assms(5)] have "Suc n \<le> nat limit + 1" by simp
  ultimately show ?thesis by auto
qed

theorem requests_bounded_witness:
  "\<exists>out w. execute_job example_python [''LIMIT'' \<mapsto> ''1''] example_form two_pages = Some (out, w) \<and>
           length (requests_of (trace w)) \<le> 2"
proof -
  have l: "[''LIMIT'' \<mapsto> ''1''] ''LIMIT'' = Some ''1''" by simp
  have h: "\<forall>k. token_at example_python two_pages k \<noteq> JNull \<longrightarrow>
               comments_at example_python two_pages k \<noteq> []"
    by (simp add: example_simps two_pages_def)
  from requests_bounded [where form = example_form and environ = "[''LIMIT'' \<mapsto> ''1'']",
      OF example_inputs(1) example_inputs(2) l example_inputs(4) h]
  show ?thesis by (simp add: numeral_2_eq_2)
qed

text \<open>
  The claim as it was stated fails for pages that have a token and no comment: the
  count never grows, and the job never returns. After 1000 passes it has issued
  1000 requests and goes on, with the limit 0.
\<close>

theorem requests_bounded_counterexample:
  "execute_job example_python [''LIMIT'' \<mapsto> ''0''] example_form empty_pages = None \<and>
   passes 1000 (loop_body example_python empty_pages 0 ''UC123'' ''ya29'') (JNull, 0, new_world) =
     Inr (state_after example_python empty_pages ''UC123'' ''ya29'' 1000) \<and>
   length (requests_of (trace (snd (snd
     (state_after example_python empty_pages ''UC123'' ''ya29'' 1000))))) = 1000"
proof (intro conjI)
  have "fetch_loop example_python empty_pages 0 ''UC123'' ''ya29'' (JNull, 0, new_world) = None"
  proof (cases "fetch_loop example_python empty_pages 0 ''UC123'' ''ya29'' (JNull, 0, new_world)")
    case None
    then show ?thesis .
  next
    case (Some r)
    from fetch_loop_finished [OF this] continues_empty_pages show ?thesis by blast
  qed
  then show "execute_job example_python [''LIMIT'' \<mapsto> ''0''] example_form empty_pages = None"
    by (simp add: execute_job_def example_inputs)
  show "passes 1000 (loop_body example_python empty_pages 0 ''UC123'' ''ya29'') (JNull, 0, new_world) =
     Inr (state_after example_python empty_pages ''UC123'' ''ya29'' 1000)"
    by (rule passes_continue) (simp add: continues_empty_pages)
  show "length (requests_of (trace (snd (snd
     (state_after example_python empty_pages ''UC123'' ''ya29'' 1000))))) = 1000"
    by (rule requests_after)
qed

section \<open>The result of get\_tokens\<close>

text \<open>
  Claim C10, as the code has it. When the form has a code and the token endpoint
  responds: for a status other than 200, \<open>get_tokens\<close> returns the dictionary with
  \<open>success\<close> false, that status code, both tokens \<^verbatim>\<open>None\<close> and the text of the
  response as the message. For the status 200 and a body that is a JSON object with
  the keys \<^verbatim>\<open>access_token\<close> and \<^verbatim>\<open>refresh_token\<close>, it returns the dictionary with
  \<open>success\<close> true, the status code 200, the values under these two keys (\<^verbatim>\<open>None\<close>
  for \<^verbatim>\<open>null\<close>) and an empty message. For the status 200 and a body that is JSON
  without one of these keys it raises. A dictionary that it returns has \<open>success\<close>
  true exactly when the status is 200, and carries the status code of the response.
\<close>

theorem get_tokens_result:
  assumes "form ''code'' = Some code" and "post (token_request environ code) = Some r"
  shows "(status_code r \<noteq> 200 \<longrightarrow>
            get_tokens environ form post =
              Inr \<lparr>success = False, token_status_code = status_code r, access_token = JNull,
                   refresh_token = JNull, message = resp_text r\<rparr>) \<and>
         (status_code r = 200 \<longrightarrow> parsed r = Some result \<longrightarrow>
          subscript result ''access_token'' = Inr a \<longrightarrow>
          subscript result ''refresh_token'' = Inr b \<longrightarrow>
            get_tokens environ form post =
              Inr \<lparr>success = True, token_status_code = 200, access_token = a,
                   refresh_token = b, message = []\<rparr>) \<and>
         (status_code r = 200 \<longrightarrow>
          (\<forall>result'. parsed r = Some result' \<longrightarrow>
             (\<exists>e. subscript result' ''access_token'' = Inl e) \<or>
             (\<exists>e. subscript result' ''refresh_token'' = Inl e)) \<longrightarrow>
            (\<exists>e. get_tokens environ form post = Inl e)) \<and>
         (get_tokens environ form post = Inr t \<longrightarrow>
            (success t \<longleftrightarrow> status_code r = 200) \<and> token_status_code t = status_code r)"
  using assms
  by (auto simp: get_tokens_def split: option.splits sum.splits)

theorem get_tokens_result_witness:
  "get_tokens Map.empty [''code'' \<mapsto> ''4/0A''] both_tokens =
     Inr \<lparr>success = True, token_status_code = 200, access_token = JStr ''ya29'',
          refresh_token = JStr ''1//0g'', message = []\<rparr> \<and>
   get_tokens Map.empty [''code'' \<mapsto> ''4/0A''] invalid_grant =
     Inr \<lparr>success = False, token_status_code = 400, access_token = JNull,
          refresh_token = JNull, message = ''invalid_grant''\<rparr>"
proof
  let ?form = "[''code'' \<mapsto> ''4/0A'']"
  let ?r = "\<lparr>status_code = 200, resp_text = [],
           parsed = Some (JObj [(''access_token'', JStr ''ya29''),
                                (''refresh_token'', JStr ''1//0g'')])\<rparr>"
  let ?result = "JObj [(''access_token'', JStr ''ya29''), (''refresh_token'', JStr ''1//0g'')]"
  have c: "?form ''code'' = Some ''4/0A''" by simp
  have p: "both_tokens (token_request Map.empty ''4/0A'') = Some ?r"
    by (simp add: both_tokens_def)
  have 1: "status_code ?r = 200" and 2: "parsed ?r = Some ?result"
    and 3: "subscript ?result ''access_token'' = Inr (JStr ''ya29'')"
    and 4: "subscript ?result ''refresh_token'' = Inr (JStr ''1//0g'')"
    by simp_all
  from get_tokens_result [where form = ?form and post = both_tokens and environ = Map.empty
      and result = ?result and a = "JStr ''ya29''" and b = "JStr ''1//0g''", OF c p] 1 2 3 4
  show "get_tokens Map.empty ?form both_tokens =
     Inr \<lparr>success = True, token_status_code = 200, access_token = JStr ''ya29'',
          refresh_token = JStr ''1//0g'', message = []\<rparr>"
    by blast
next
  let ?form = "[''code'' \<mapsto> ''4/0A'']"
  let ?r = "\<lparr>status_code = 400, resp_text = ''invalid_grant'', parsed = None\<rparr>"
  have c: "?form ''code'' = Some ''4/0A''" by simp
  have p: "invalid_grant (token_request Map.empty ''4/0A'') = Some ?r"
    by (simp add: invalid_grant_def)
  have 1: "status_code ?r \<noteq> 200" by simp
  from get_tokens_result [where form = ?form and post = invalid_grant and environ = Map.empty, OF c p] 1
  show "get_tokens Map.empty ?form invalid_grant =
     Inr \<lparr>success = False, token_status_code = 400, access_token = JNull,
          refresh_token = JNull, message = ''invalid_grant''\<rparr>"
    by simp
qed

text \<open>
  The claim as it was stated fails for a response with status 200 whose body has no
  refresh token: \<open>get_tokens\<close> raises \<^verbatim>\<open>KeyError\<close> and returns no dictionary.
\<close>

theorem get_tokens_result_counterexample:
  "no_refresh_token (token_request Map.empty ''4/0A'') =
     Some \<lparr>status_code = 200, resp_text = [],
           parsed = Some (JObj [(''access_token'', JStr ''ya29'')])\<rparr> \<and>
   get_tokens Map.empty [''code'' \<mapsto> ''4/0A''] no_refresh_token = Inl (KeyError ''refresh_token'')"
  by (simp add: get_tokens_def no_refresh_token_def)

end
